theory Spec2Isabelle
  imports Main "HOL-Library.Char_ord" "HOL-Library.List_Lexorder"
begin

section \<open>C strings and pointers\<close>

text \<open>
  A \<open>char *\<close> is modelled by the bytes that lie between the pointer and the end of
  the object it points into, the terminating NUL included: \<open>*p\<close> is the head of the
  list, \<open>p++\<close> its tail, and the empty list is a pointer that has run off the end of
  its object. A read through such a pointer has no defined value in C; the functions
  below answer \<open>None\<close> (or a fault) there.
\<close>

type_synonym cptr = "char list"

definition NUL :: char where
  "NUL = CHR 0x00"

definition cstr :: "string \<Rightarrow> cptr" where
  "cstr s = s @ [NUL]"

definition str_of :: "cptr \<Rightarrow> string" where
  "str_of p = takeWhile (\<lambda>c. c \<noteq> NUL) p"

text \<open>
  The value of a \<open>char\<close> converted to \<open>int\<close>; \<open>char\<close> is signed on the Linux
  and SunOS targets the program names.
\<close>

definition char_val :: "char \<Rightarrow> int" where
  "char_val c = (if of_char c < (128::nat) then int (of_char c) else int (of_char c) - 256)"

text \<open>What \<open>printf\<close> writes for \<open>%d\<close>, \<open>%ld\<close> and \<open>%llu\<close>.\<close>

definition digit_char :: "nat \<Rightarrow> char" where
  "digit_char d = ''0123456789'' ! d"

function show_nat :: "nat \<Rightarrow> string" where
  "show_nat n = (if n < 10 then [digit_char n] else show_nat (n div 10) @ [digit_char (n mod 10)])"
  by pat_completeness auto
termination
  by (relation "measure (\<lambda>n. n)") auto

definition show_int :: "int \<Rightarrow> string" where
  "show_int i = (if i < 0 then CHR ''-'' # show_nat (nat (- i)) else show_nat (nat i))"

section \<open>NFS status codes and their messages\<close>

text \<open>
  Modelled from the spec: the header nfs_prot.h is not part of the sources, so the
  values of \<open>enum nfsstat3\<close> are those of RFC 1813, the NFS version 3 protocol the
  specification names. A status arrives as a 32-bit integer on the wire, hence the type.
\<close>

type_synonym nfsstat3 = int

definition NFS3_OK :: nfsstat3 where "NFS3_OK = 0"
definition NFS3ERR_PERM :: nfsstat3 where "NFS3ERR_PERM = 1"
definition NFS3ERR_NOENT :: nfsstat3 where "NFS3ERR_NOENT = 2"
definition NFS3ERR_IO :: nfsstat3 where "NFS3ERR_IO = 5"
definition NFS3ERR_NXIO :: nfsstat3 where "NFS3ERR_NXIO = 6"
definition NFS3ERR_ACCES :: nfsstat3 where "NFS3ERR_ACCES = 13"
definition NFS3ERR_EXIST :: nfsstat3 where "NFS3ERR_EXIST = 17"
definition NFS3ERR_XDEV :: nfsstat3 where "NFS3ERR_XDEV = 18"
definition NFS3ERR_NODEV :: nfsstat3 where "NFS3ERR_NODEV = 19"
definition NFS3ERR_NOTDIR :: nfsstat3 where "NFS3ERR_NOTDIR = 20"
definition NFS3ERR_ISDIR :: nfsstat3 where "NFS3ERR_ISDIR = 21"
definition NFS3ERR_INVAL :: nfsstat3 where "NFS3ERR_INVAL = 22"
definition NFS3ERR_FBIG :: nfsstat3 where "NFS3ERR_FBIG = 27"
definition NFS3ERR_NOSPC :: nfsstat3 where "NFS3ERR_NOSPC = 28"
definition NFS3ERR_ROFS :: nfsstat3 where "NFS3ERR_ROFS = 30"
definition NFS3ERR_MLINK :: nfsstat3 where "NFS3ERR_MLINK = 31"
definition NFS3ERR_NAMETOOLONG :: nfsstat3 where "NFS3ERR_NAMETOOLONG = 63"
definition NFS3ERR_NOTEMPTY :: nfsstat3 where "NFS3ERR_NOTEMPTY = 66"
definition NFS3ERR_DQUOT :: nfsstat3 where "NFS3ERR_DQUOT = 69"
definition NFS3ERR_STALE :: nfsstat3 where "NFS3ERR_STALE = 70"
definition NFS3ERR_REMOTE :: nfsstat3 where "NFS3ERR_REMOTE = 71"
definition NFS3ERR_BADHANDLE :: nfsstat3 where "NFS3ERR_BADHANDLE = 10001"
definition NFS3ERR_NOT_SYNC :: nfsstat3 where "NFS3ERR_NOT_SYNC = 10002"
definition NFS3ERR_BAD_COOKIE :: nfsstat3 where "NFS3ERR_BAD_COOKIE = 10003"
definition NFS3ERR_NOTSUPP :: nfsstat3 where "NFS3ERR_NOTSUPP = 10004"
definition NFS3ERR_TOOSMALL :: nfsstat3 where "NFS3ERR_TOOSMALL = 10005"
definition NFS3ERR_SERVERFAULT :: nfsstat3 where "NFS3ERR_SERVERFAULT = 10006"
definition NFS3ERR_BADTYPE :: nfsstat3 where "NFS3ERR_BADTYPE = 10007"
definition NFS3ERR_JUKEBOX :: nfsstat3 where "NFS3ERR_JUKEBOX = 10008"

lemmas nfsstat3_defs =
  NFS3_OK_def NFS3ERR_PERM_def NFS3ERR_NOENT_def NFS3ERR_IO_def NFS3ERR_NXIO_def
  NFS3ERR_ACCES_def NFS3ERR_EXIST_def NFS3ERR_XDEV_def NFS3ERR_NODEV_def
  NFS3ERR_NOTDIR_def NFS3ERR_ISDIR_def NFS3ERR_INVAL_def NFS3ERR_FBIG_def
  NFS3ERR_NOSPC_def NFS3ERR_ROFS_def NFS3ERR_MLINK_def NFS3ERR_NAMETOOLONG_def
  NFS3ERR_NOTEMPTY_def NFS3ERR_DQUOT_def NFS3ERR_STALE_def NFS3ERR_REMOTE_def
  NFS3ERR_BADHANDLE_def NFS3ERR_NOT_SYNC_def NFS3ERR_BAD_COOKIE_def
  NFS3ERR_NOTSUPP_def NFS3ERR_TOOSMALL_def NFS3ERR_SERVERFAULT_def
  NFS3ERR_BADTYPE_def NFS3ERR_JUKEBOX_def

text \<open>The \<open>switch\<close> of \<open>nfs_error\<close>, case by case, with its \<open>default\<close> last.\<close>

definition nfs_error :: "nfsstat3 \<Rightarrow> string" where
  "nfs_error stat =
     (if stat = NFS3_OK then ''No error''
      else if stat = NFS3ERR_PERM then ''Not owner''
      else if stat = NFS3ERR_NOENT then ''No such file or directory''
      else if stat = NFS3ERR_IO then ''I/O error''
      else if stat = NFS3ERR_NXIO then ''No such device or address''
      else if stat = NFS3ERR_ACCES then ''Permission denied''
      else if stat = NFS3ERR_EXIST then ''File exists''
      else if stat = NFS3ERR_NODEV then ''No such device''
      else if stat = NFS3ERR_NOTDIR then ''Not a directory''
      else if stat = NFS3ERR_ISDIR then ''Is a directory''
      else if stat = NFS3ERR_FBIG then ''File too large''
      else if stat = NFS3ERR_NOSPC then ''No space left on device''
      else if stat = NFS3ERR_ROFS then ''Read-only file system''
      else if stat = NFS3ERR_MLINK then ''Too many hard links''
      else if stat = NFS3ERR_NAMETOOLONG then ''File name too long''
      else if stat = NFS3ERR_NOTEMPTY then ''Directory not empty''
      else if stat = NFS3ERR_DQUOT then ''Disc quota exceeded''
      else if stat = NFS3ERR_STALE then ''Stale NFS file handle''
      else if stat = NFS3ERR_REMOTE then ''Too many levels of remote in path''
      else if stat = NFS3ERR_BADHANDLE then ''Illegal NFS file handle''
      else if stat = NFS3ERR_NOT_SYNC then ''Update synchronization mismatch''
      else if stat = NFS3ERR_BAD_COOKIE then ''READDIR or READDIRPLUS cookie is stale''
      else if stat = NFS3ERR_NOTSUPP then ''Operation is not supported''
      else if stat = NFS3ERR_TOOSMALL then ''Buffer or request is too small''
      else if stat = NFS3ERR_SERVERFAULT then ''Other server error''
      else if stat = NFS3ERR_BADTYPE then ''Type not supported by server''
      else if stat = NFS3ERR_JUKEBOX then ''Retrieval pending''
      else ''UKNOWN NFS ERROR'')"

text \<open>The codes that have a \<open>case\<close> label in \<open>nfs_error\<close>.\<close>

definition nfs_error_cases :: "nfsstat3 list" where
  "nfs_error_cases =
     [NFS3_OK, NFS3ERR_PERM, NFS3ERR_NOENT, NFS3ERR_IO, NFS3ERR_NXIO, NFS3ERR_ACCES,
      NFS3ERR_EXIST, NFS3ERR_NODEV, NFS3ERR_NOTDIR, NFS3ERR_ISDIR, NFS3ERR_FBIG,
      NFS3ERR_NOSPC, NFS3ERR_ROFS, NFS3ERR_MLINK, NFS3ERR_NAMETOOLONG,
      NFS3ERR_NOTEMPTY, NFS3ERR_DQUOT, NFS3ERR_STALE, NFS3ERR_REMOTE,
      NFS3ERR_BADHANDLE, NFS3ERR_NOT_SYNC, NFS3ERR_BAD_COOKIE, NFS3ERR_NOTSUPP,
      NFS3ERR_TOOSMALL, NFS3ERR_SERVERFAULT, NFS3ERR_BADTYPE, NFS3ERR_JUKEBOX]"

section \<open>Shell patterns\<close>

text \<open>
  \<open>amatchpattern\<close> first reads \<open>*s++\<close> into \<open>scc\<close>, keeping the low seven bits of a
  character other than NUL and replacing a result of zero by 0200.
\<close>

definition scc_of :: "char \<Rightarrow> int" where
  "scc_of c =
     (if char_val c = 0 then 0
      else if (of_char c :: nat) mod 128 = 0 then 128
      else int ((of_char c :: nat) mod 128))"

text \<open>
  \<open>bracket\<close> is the \<open>while\<close> loop of the \<open>'['\<close> case, with the locals \<open>scc\<close>,
  \<open>lc\<close> and \<open>ok\<close> as arguments; \<open>umatch_loop\<close> is the \<open>while\<close> loop of
  \<open>umatchpattern\<close>. In the \<open>'*'\<close> case the C code calls \<open>umatchpattern(--s, p)\<close>: the
  pointer it passes is the one \<open>amatchpattern\<close> was given.
\<close>

function amatchpattern :: "cptr \<Rightarrow> cptr \<Rightarrow> bool option"
  and bracket :: "int \<Rightarrow> int \<Rightarrow> int \<Rightarrow> cptr \<Rightarrow> cptr \<Rightarrow> bool option"
  and umatchpattern :: "cptr \<Rightarrow> cptr \<Rightarrow> bool option"
  and umatch_loop :: "cptr \<Rightarrow> cptr \<Rightarrow> bool option"
where
  "amatchpattern [] p = None"
| "amatchpattern (sc # s) [] = None"
| "amatchpattern (sc # s) (pc # p) =
     (let scc = scc_of sc; c = char_val pc in
      if c = char_val CHR ''['' then bracket scc 32767 0 s p
      else if c = char_val CHR ''*'' then umatchpattern (sc # s) p
      else if c = 0 then Some (scc = 0)
      else if c \<noteq> char_val CHR ''?'' \<and> c \<noteq> scc then Some False
      else if scc \<noteq> 0 then amatchpattern s p
      else Some False)"
| "bracket scc lc ok s [] = None"
| "bracket scc lc ok s (pc # p) =
     (let cc = char_val pc in
      if cc = 0 then Some False
      else if cc = char_val CHR '']'' then
        (if ok \<noteq> 0 then amatchpattern s p else Some False)
      else if cc = char_val CHR ''-'' then
        (if lc \<le> scc then
           (case p of
              [] \<Rightarrow> None
            | pc' # p' \<Rightarrow> bracket scc lc (if scc \<le> char_val pc' then ok + 1 else ok) s p')
         else bracket scc lc ok s p)
      else bracket scc cc (if scc = cc then ok + 1 else ok) s p)"
| "umatchpattern s [] = None"
| "umatchpattern s (pc # p) =
     (if pc = NUL then Some True else umatch_loop s (pc # p))"
| "umatch_loop [] p = None"
| "umatch_loop (sc # s) p =
     (if sc = NUL then Some False
      else (case amatchpattern (sc # s) p of
              None \<Rightarrow> None
            | Some True \<Rightarrow> Some True
            | Some False \<Rightarrow> umatch_loop s p))"
  by pat_completeness auto
termination
  by (relation "measures [
        (\<lambda>x. case x of Inl (Inl (s, p)) \<Rightarrow> length p
                     | Inl (Inr (scc, lc, ok, s, p)) \<Rightarrow> length p
                     | Inr (Inl (s, p)) \<Rightarrow> length p
                     | Inr (Inr (s, p)) \<Rightarrow> length p),
        (\<lambda>x. case x of Inl (Inl (s, p)) \<Rightarrow> 0
                     | Inl (Inr (scc, lc, ok, s, p)) \<Rightarrow> 0
                     | Inr (Inl (s, p)) \<Rightarrow> 2
                     | Inr (Inr (s, p)) \<Rightarrow> Suc 0),
        (\<lambda>x. case x of Inl (Inl (s, p)) \<Rightarrow> 0
                     | Inl (Inr (scc, lc, ok, s, p)) \<Rightarrow> 0
                     | Inr (Inl (s, p)) \<Rightarrow> 0
                     | Inr (Inr (s, p)) \<Rightarrow> length s)]") auto

definition matchpattern :: "cptr \<Rightarrow> cptr \<Rightarrow> bool option" where
  "matchpattern s p =
     (case (s, p) of
        ([], _) \<Rightarrow> None
      | (sc # _, []) \<Rightarrow> (if sc = CHR ''.'' then None else amatchpattern s p)
      | (sc # _, pc # _) \<Rightarrow>
          (if sc = CHR ''.'' \<and> pc \<noteq> CHR ''.'' then Some False else amatchpattern s p))"

text \<open>The \<open>for\<close> loop of \<open>match\<close> over \<open>argv[0..argc-1]\<close>.\<close>

fun match_loop :: "cptr \<Rightarrow> cptr list \<Rightarrow> bool option" where
  "match_loop s [] = Some False"
| "match_loop s (a # argv) =
     (case matchpattern s a of
        None \<Rightarrow> None
      | Some True \<Rightarrow> Some True
      | Some False \<Rightarrow> match_loop s argv)"

text \<open>\<open>argc\<close> is the number of patterns in \<open>argv\<close>.\<close>

definition match :: "cptr \<Rightarrow> cptr list \<Rightarrow> bool option" where
  "match s argv = (if length argv = 0 then Some True else match_loop s argv)"

section \<open>Privileged ports\<close>

datatype errno = EADDRINUSE | EADDRNOTAVAIL | EACCES | EINVAL | ENOBUFS

text \<open>
  What the operating system answers during one call of \<open>privileged\<close>: the descriptor
  \<open>socket\<close> returns (negative on failure) and, for each local port, whether \<open>bind\<close> to
  it succeeds (\<open>None\<close>) or the \<open>errno\<close> it fails with.
\<close>

record netenv =
  socket_res :: int
  bind_res :: "int \<Rightarrow> errno option"

datatype net_event =
    Bind int "errno option"
  | Close int
  | Stderr string

definition IPPORT_RESERVED :: int where
  "IPPORT_RESERVED = 1024"

definition RPC_ANYSOCK :: int where
  "RPC_ANYSOCK = - 1"

text \<open>
  The \<open>for (;;)\<close> loop of \<open>privileged\<close>. It returns the function's result and the
  events so far: every \<open>bind\<close> with its outcome, the line written to stderr (without
  its newline), the \<open>close\<close>. The port handed to \<open>bind\<close> is \<open>(u_short)lport\<close>. \<open>C\<close>'s \<open>/\<close> and
  \<open>div\<close> agree on \<open>IPPORT_RESERVED/2\<close>.
\<close>

partial_function (option) privileged_loop ::
  "netenv \<Rightarrow> bool \<Rightarrow> int \<Rightarrow> int \<Rightarrow> net_event list \<Rightarrow> (int \<times> net_event list) option"
where
  "privileged_loop env verbose s lport evs =
     (case bind_res env (lport mod 65536) of
        None \<Rightarrow>
          Some (s, evs @ [Bind (lport mod 65536) None] @
                  (if verbose
                   then [Stderr (''Using a privileged port ('' @ show_int lport @ '')'')]
                   else []))
      | Some e \<Rightarrow>
          (if e \<noteq> EADDRINUSE \<and> e \<noteq> EADDRNOTAVAIL
           then Some (RPC_ANYSOCK, evs @ [Bind (lport mod 65536) (Some e), Close s])
           else if lport - 1 = IPPORT_RESERVED div 2
           then Some (RPC_ANYSOCK,
                  evs @ [Bind (lport mod 65536) (Some e),
                         Stderr ''privileged socket: All ports in use'', Close s])
           else privileged_loop env verbose s (lport - 1)
                  (evs @ [Bind (lport mod 65536) (Some e)])))"

declare privileged_loop.simps [code]

definition privileged :: "netenv \<Rightarrow> bool \<Rightarrow> (int \<times> net_event list) option" where
  "privileged env verbose =
     (let lport = IPPORT_RESERVED - 1; s = socket_res env in
      if s < 0 then Some (RPC_ANYSOCK, [])
      else privileged_loop env verbose s lport [])"

text \<open>
  For the statements about \<open>privileged\<close>: a \<open>bind\<close> outcome after which the loop
  goes on to the next port, and the \<open>bind\<close> events of a descent from \<open>lport\<close> down
  to \<open>p\<close>.
\<close>

definition in_use :: "errno option \<Rightarrow> bool" where
  "in_use r = (r = Some EADDRINUSE \<or> r = Some EADDRNOTAVAIL)"

definition probes :: "netenv \<Rightarrow> int \<Rightarrow> int \<Rightarrow> net_event list" where
  "probes env p lport = map (\<lambda>q. Bind q (bind_res env q)) (rev [p..lport])"

section \<open>NFS version 3 data\<close>

text \<open>
  Modelled from the spec: the header nfs_prot.h is not part of the sources. The
  structures below carry the members the program reads or writes, under the names the
  program uses for them; the values of \<open>enum ftype3\<close> are those of RFC 1813. A file
  handle is a length and a fixed array of bytes, copied as a whole.
\<close>

record nfs_fh3 =
  data_len :: nat
  data_val :: "char list"

record fhandle3 =
  fhandle3_len :: nat
  fhandle3_val :: "char list"

definition fhandle3_to_nfs_fh3 :: "fhandle3 \<Rightarrow> nfs_fh3" where
  "fhandle3_to_nfs_fh3 src = \<lparr>data_len = fhandle3_len src, data_val = fhandle3_val src\<rparr>"

definition nfs_fh3copy :: "nfs_fh3 \<Rightarrow> nfs_fh3" where
  "nfs_fh3copy src = \<lparr>data_len = data_len src, data_val = data_val src\<rparr>"

type_synonym ftype3 = int

definition NF3REG :: ftype3 where "NF3REG = 1"
definition NF3DIR :: ftype3 where "NF3DIR = 2"

record fattr3 =
  attr_type :: ftype3
  attr_mode :: int
  attr_size :: int

record post_op_attr =
  attributes_follow :: bool
  attributes :: fattr3

record diropargs3 =
  dir :: nfs_fh3
  name :: string

text \<open>
  A result is its status and the \<open>resok\<close> arm of its union, which means something only
  when the status is NFS3_OK.
\<close>

record 'a nfsres =
  status :: nfsstat3
  resok :: 'a

record LOOKUP3args =
  what :: diropargs3

record LOOKUP3resok =
  object :: nfs_fh3
  obj_attributes :: post_op_attr

type_synonym LOOKUP3res = "LOOKUP3resok nfsres"

text \<open>
  A field of \<open>sattr3\<close> is a union under \<open>set_it\<close>: \<open>None\<close> is \<open>set_it = FALSE\<close>,
  \<open>Some v\<close> is \<open>set_it = TRUE\<close> with the value \<open>v\<close>, an unsigned 32-bit number for
  mode, uid and gid. For the two times \<open>set_it\<close> is an \<open>enum time_how\<close>, whose value
  0 (what \<open>FALSE\<close> is) is DONT_CHANGE.
\<close>

datatype time_how = DONT_CHANGE | SET_TO_SERVER_TIME | SET_TO_CLIENT_TIME

record sattr3 =
  set_mode :: "int option"
  set_uid :: "int option"
  set_gid :: "int option"
  set_size :: "int option"
  set_atime :: time_how
  set_mtime :: time_how

text \<open>The conversion of an \<open>int\<close> to \<open>uid3\<close>, \<open>gid3\<close> or \<open>mode3\<close>.\<close>

definition uint32 :: "int \<Rightarrow> int" where
  "uint32 i = i mod 2 ^ 32"

record SETATTR3args =
  sa_object :: nfs_fh3
  new_attributes :: sattr3
  guard_check :: bool

record READ3args =
  read_file :: nfs_fh3
  read_offset :: int
  read_count :: int

record READ3resok =
  eof :: bool
  data :: "char list"

type_synonym READ3res = "READ3resok nfsres"

record entry3 =
  entry_name :: string
  entry_cookie :: nat

record READDIR3args =
  readdir_dir :: nfs_fh3
  readdir_cookie :: nat
  readdir_count :: nat

record READDIR3resok =
  reply_entries :: "entry3 list"
  reply_eof :: bool

type_synonym READDIR3res = "READDIR3resok nfsres"

datatype createmode3 = UNCHECKED | GUARDED | EXCLUSIVE

record CREATE3args =
  cr_where :: diropargs3
  how_mode :: createmode3
  how_obj_attributes :: sattr3

datatype stable_how = UNSTABLE | DATA_SYNC | FILE_SYNC

record WRITE3args =
  wr_file :: nfs_fh3
  wr_offset :: int
  wr_count :: int
  wr_stable :: stable_how
  wr_data :: "char list"

text \<open>
  Modelled from the spec: the header mount.h is not part of the sources; \<open>mountres3\<close>
  carries the status and the file handle of the mount, the two members the program reads.
\<close>

record mountres3 =
  fhs_status :: int
  mountinfo_fhandle :: fhandle3

definition MNT3_OK :: int where "MNT3_OK = 0"

section \<open>The world outside the program\<close>

text \<open>
  Every remote procedure call is answered from \<open>replies\<close>, the replies the server is
  going to send, in order. A call whose turn finds \<open>RPC_FAILED\<close>, a reply to another
  procedure, or no reply at all (the server has gone silent and the call times out) fails:
  the stub returns NULL. The calls that set a channel up are answered from the same
  sequence: the port mapper's answer to \<open>pmap_getport\<close>, whether \<open>connect\<close> gets
  through, and for \<open>clnttcp_create\<close> and \<open>clntudp_create\<close> the address of the
  \<open>CLIENT\<close> they allocate, which is taken to be an address not in use; so is the name
  that \<open>gethostname\<close> gives. Of the arguments of these calls the log keeps the protocol
  that \<open>pmap_getport\<close> asks for and the port that \<open>connect\<close> is given. \<open>log\<close> records
  every call with what came back, \<open>out\<close> what the program writes, line by line and without the newlines; \<open>clnt_perror\<close> is recorded by
  the string it is given, as are \<open>perror\<close> and \<open>clnt_pcreateerror\<close>. \<open>Stdout\<close> and
  \<open>Fwrite\<close> are the bytes of one \<open>fwrite\<close> or \<open>printf\<close> to the standard output and
  of one \<open>fwrite\<close> to the local file that \<open>do_get\<close> has open.
\<close>

datatype ipproto = IPPROTO_TCP | IPPROTO_UDP

datatype rpc_call =
    LOOKUP LOOKUP3args
  | SETATTR SETATTR3args
  | READ READ3args
  | READDIR READDIR3args
  | CREATE CREATE3args
  | WRITE WRITE3args
  | FSINFO nfs_fh3
  | MNT string
  | PMAP_MNT string
  | UMNT string
  | PMAP_GETPORT ipproto
  | CONNECT int
  | CLNTTCP_CREATE
  | CLNTUDP_CREATE
  | GETHOSTNAME

datatype rpc_reply =
    RPC_FAILED
  | LOOKUP3 LOOKUP3res
  | SETATTR3 "unit nfsres"
  | READ3 READ3res
  | READDIR3 READDIR3res
  | CREATE3 "unit nfsres"
  | WRITE3 "unit nfsres"
  | FSINFO3 "int nfsres"
  | MOUNTRES3 mountres3
  | VOID3
  | PORT int
  | CONNECTED
  | CLNT_AT nat
  | HOSTNAME string

datatype out_event =
    Stdout string
  | Stderr_line string
  | Clnt_perror string
  | Fwrite string
  | Perror string
  | Clnt_pcreateerror string
  | Clnt_perrno

text \<open>
  \<open>oom_after\<close> is the number of allocations (\<open>calloc\<close>, \<open>realloc\<close>, \<open>strdup\<close>) that
  still succeed, \<open>None\<close> when memory never runs out. \<open>files\<close> are the local files that
  \<open>fopen\<close> can open for reading, with their contents. \<open>net\<close> is what the
  operating system answers to \<open>socket\<close> and \<open>bind\<close>.
\<close>

record world =
  replies :: "rpc_reply list"
  log :: "(rpc_call \<times> rpc_reply) list"
  out :: "out_event list"
  oom_after :: "nat option"
  files :: "string \<Rightarrow> char list option"
  net :: netenv

definition rpc :: "rpc_call \<Rightarrow> world \<Rightarrow> rpc_reply \<times> world" where
  "rpc c w =
     (case replies w of
        [] \<Rightarrow> (RPC_FAILED, w\<lparr>log := log w @ [(c, RPC_FAILED)]\<rparr>)
      | r # rs \<Rightarrow> (r, w\<lparr>replies := rs, log := log w @ [(c, r)]\<rparr>))"

definition nfs3_lookup_3 :: "LOOKUP3args \<Rightarrow> world \<Rightarrow> LOOKUP3res option \<times> world" where
  "nfs3_lookup_3 args w =
     (case rpc (LOOKUP args) w of
        (LOOKUP3 res, w') \<Rightarrow> (Some res, w')
      | (_, w') \<Rightarrow> (None, w'))"

definition nfs3_setattr_3 :: "SETATTR3args \<Rightarrow> world \<Rightarrow> unit nfsres option \<times> world" where
  "nfs3_setattr_3 args w =
     (case rpc (SETATTR args) w of
        (SETATTR3 res, w') \<Rightarrow> (Some res, w')
      | (_, w') \<Rightarrow> (None, w'))"

definition nfs3_read_3 :: "READ3args \<Rightarrow> world \<Rightarrow> READ3res option \<times> world" where
  "nfs3_read_3 args w =
     (case rpc (READ args) w of
        (READ3 res, w') \<Rightarrow> (Some res, w')
      | (_, w') \<Rightarrow> (None, w'))"

definition nfs3_readdir_3 :: "READDIR3args \<Rightarrow> world \<Rightarrow> READDIR3res option \<times> world" where
  "nfs3_readdir_3 args w =
     (case rpc (READDIR args) w of
        (READDIR3 res, w') \<Rightarrow> (Some res, w')
      | (_, w') \<Rightarrow> (None, w'))"

definition nfs3_create_3 :: "CREATE3args \<Rightarrow> world \<Rightarrow> unit nfsres option \<times> world" where
  "nfs3_create_3 args w =
     (case rpc (CREATE args) w of
        (CREATE3 res, w') \<Rightarrow> (Some res, w')
      | (_, w') \<Rightarrow> (None, w'))"

definition nfs3_write_3 :: "WRITE3args \<Rightarrow> world \<Rightarrow> unit nfsres option \<times> world" where
  "nfs3_write_3 args w =
     (case rpc (WRITE args) w of
        (WRITE3 res, w') \<Rightarrow> (Some res, w')
      | (_, w') \<Rightarrow> (None, w'))"

definition fprintf_stderr :: "string \<Rightarrow> world \<Rightarrow> world" where
  "fprintf_stderr line w = w\<lparr>out := out w @ [Stderr_line line]\<rparr>"

definition clnt_perror :: "string \<Rightarrow> world \<Rightarrow> world" where
  "clnt_perror str w = w\<lparr>out := out w @ [Clnt_perror str]\<rparr>"

section \<open>The session\<close>

text \<open>
  The global variables of the program that the commands below read or write. A pointer
  that may be NULL is an option; \<open>mntclient\<close> and \<open>nfsclient\<close> hold the address of
  a \<open>CLIENT\<close>. With them comes the part of the heap that they point into: \<open>clients\<close>
  are the addresses of the \<open>CLIENT\<close> objects that have been created and not
  destroyed. A pointer to a \<open>CLIENT\<close> may be used only while its address is among
  them.
\<close>

datatype auth_flavor = AUTH_UNIX | AUTH_DES

record session =
  verbose :: bool
  authtype :: auth_flavor
  uid :: int
  gid :: int
  mountpath :: "string option"
  remotehost :: "string option"
  mntclient :: "nat option"
  nfsclient :: "nat option"
  mountpoint :: "mountres3 option"
  directory_handle :: nfs_fh3
  transfersize :: int
  clients :: "nat list"

text \<open>
  What ends a command other than its return: behaviour that C leaves undefined (a read
  outside an object, a use of a null pointer or of a pointer to an object that has been
  destroyed), \<open>exit\<close>, or a loop that does not end.
\<close>

datatype fault = UNDEFINED | EXIT int | DIVERGES

section \<open>cd\<close>

text \<open>
  The \<open>for (;;)\<close> loop of \<open>do_cd\<close>, with the locals \<open>p\<close> and \<open>handle\<close> as arguments.
  The inner \<open>for\<close> moves \<open>p\<close> to the next \<open>'/'\<close> or NUL, \<open>*p++ = '\0'\<close> ends the
  component there and steps over it; after the last component \<open>p\<close> is thus one byte
  beyond the NUL that ended the path. The result is \<open>Some\<close> of the final handle when the
  loop was left by its \<open>break\<close>, and \<open>None\<close> when the function returned from within.
\<close>

function cd_walk :: "cptr \<Rightarrow> nfs_fh3 \<Rightarrow> world \<Rightarrow> fault + nfs_fh3 option \<times> world" where
  "cd_walk p handle w =
     (case p of
        [] \<Rightarrow> Inl UNDEFINED
      | c # _ \<Rightarrow>
          if c = NUL then Inr (Some handle, w)
          else
            (let component = takeWhile (\<lambda>c. c \<noteq> CHR ''/'' \<and> c \<noteq> NUL) p in
             case dropWhile (\<lambda>c. c \<noteq> CHR ''/'' \<and> c \<noteq> NUL) p of
               [] \<Rightarrow> Inl UNDEFINED
             | _ # p' \<Rightarrow>
                 (case nfs3_lookup_3 \<lparr>what = \<lparr>dir = nfs_fh3copy handle, name = component\<rparr>\<rparr> w of
                    (None, w') \<Rightarrow> Inr (None, clnt_perror ''nfs3_lookup'' w')
                  | (Some res, w') \<Rightarrow>
                      if status res \<noteq> NFS3_OK
                      then Inr (None,
                             fprintf_stderr (component @ '': '' @ nfs_error (status res)) w')
                      else if attr_type (attributes (obj_attributes (resok res))) \<noteq> NF3DIR
                      then Inr (None, fprintf_stderr (component @ '': is not a directory'') w')
                      else cd_walk p' (nfs_fh3copy (object (resok res))) w')))"
  by pat_completeness auto
termination
proof (relation "measure (\<lambda>(p, handle, w). length p)")
  show "wf (measure (\<lambda>(p, handle, w). length p))" by simp
next
  fix p :: cptr and handle :: nfs_fh3 and w :: world and c cs x21 p'
  assume "dropWhile (\<lambda>c. c \<noteq> CHR ''/'' \<and> c \<noteq> NUL) p = x21 # p'"
  then have "length p' < length (dropWhile (\<lambda>c. c \<noteq> CHR ''/'' \<and> c \<noteq> NUL) p)"
    by simp
  also have "\<dots> \<le> length p" by (rule length_dropWhile_le)
  finally show "\<And>a b c d. ((p', nfs_fh3copy (object (resok c)), d), p, handle, w)
      \<in> measure (\<lambda>(p, handle, w). length p)"
    by simp
qed

declare cd_walk.simps [simp del]

text \<open>
  \<open>argc\<close> is the length of \<open>argv\<close>; \<open>main\<close> never dispatches an empty line, so
  \<open>argv\<close> holds the command word at least.
\<close>

definition do_cd :: "cptr list \<Rightarrow> session \<Rightarrow> world \<Rightarrow> fault + session \<times> world" where
  "do_cd argv s w =
     (if mountpath s = None
      then Inr (s, fprintf_stderr ''cd: no remote file system mounted'' w)
      else
        (case argv of
           [] \<Rightarrow> Inl UNDEFINED
         | [_] \<Rightarrow>
             (case mountpoint s of
                None \<Rightarrow> Inl UNDEFINED
              | Some mp \<Rightarrow>
                  Inr (s\<lparr>directory_handle := fhandle3_to_nfs_fh3 (mountinfo_fhandle mp)\<rparr>, w))
         | _ # p # _ \<Rightarrow>
             (case p of
                [] \<Rightarrow> Inl UNDEFINED
              | c # p' \<Rightarrow>
                  (case (if c = CHR ''/''
                         then (case mountpoint s of
                                 None \<Rightarrow> Inl UNDEFINED
                               | Some mp \<Rightarrow>
                                   Inr (fhandle3_to_nfs_fh3 (mountinfo_fhandle mp), p'))
                         else Inr (nfs_fh3copy (directory_handle s), p)) of
                     Inl f \<Rightarrow> Inl f
                   | Inr (handle, p1) \<Rightarrow>
                       (case cd_walk p1 handle w of
                          Inl f \<Rightarrow> Inl f
                        | Inr (None, w') \<Rightarrow> Inr (s, w')
                        | Inr (Some h, w') \<Rightarrow>
                            Inr (s\<lparr>directory_handle := nfs_fh3copy h\<rparr>, w'))))))"

text \<open>
  For the statements about \<open>do_cd\<close>. A reply that lets the walk go on: a LOOKUP result
  with the status NFS3_OK whose attributes show a directory.
\<close>

definition lookup_dir_ok :: "rpc_reply \<Rightarrow> bool" where
  "lookup_dir_ok r =
     (case r of
        LOOKUP3 res \<Rightarrow>
          status res = NFS3_OK \<and> attr_type (attributes (obj_attributes (resok res))) = NF3DIR
      | _ \<Rightarrow> False)"

text \<open>
  The line that \<open>do_cd\<close> writes when the reply \<open>r\<close> to the LOOKUP of the component
  \<open>c\<close> ends the walk, and the name that a LOOKUP call asks for.
\<close>

definition cd_report :: "string \<Rightarrow> rpc_reply \<Rightarrow> out_event" where
  "cd_report c r =
     (case r of
        LOOKUP3 res \<Rightarrow>
          if status res \<noteq> NFS3_OK then Stderr_line (c @ '': '' @ nfs_error (status res))
          else Stderr_line (c @ '': is not a directory'')
      | _ \<Rightarrow> Clnt_perror ''nfs3_lookup'')"

definition lookup_name :: "rpc_call \<Rightarrow> string" where
  "lookup_name c = (case c of LOOKUP args \<Rightarrow> name (what args) | _ \<Rightarrow> [])"

text \<open>The line for a walk whose calls are given and whose last call ended it.\<close>

definition cd_failure :: "(rpc_call \<times> rpc_reply) list \<Rightarrow> out_event" where
  "cd_failure calls = cd_report (lookup_name (fst (last calls))) (snd (last calls))"

text \<open>
  A path split on \<open>'/'\<close> into all its pieces, the empty ones too. \<open>path_components\<close>
  are the components in the words of the specification: the pieces that are not empty.
  \<open>walk_pieces\<close> are the pieces that the loop of \<open>do_cd\<close> takes from a path that is
  followed by two NUL bytes: all of them but the empty piece after a final \<open>'/'\<close> (and
  the one piece of the empty path), so an empty piece between two \<open>'/'\<close> is among
  them. A leading \<open>'/'\<close> makes the walk start at the root of the mount, and the path
  then goes on after it.
\<close>

function split_slash :: "string \<Rightarrow> string list" where
  "split_slash s =
     (case dropWhile (\<lambda>c. c \<noteq> CHR ''/'') s of
        [] \<Rightarrow> [s]
      | _ # r \<Rightarrow> takeWhile (\<lambda>c. c \<noteq> CHR ''/'') s # split_slash r)"
  by pat_completeness auto
termination
proof (relation "measure length")
  show "wf (measure length)" by simp
next
  fix s :: string and x r
  assume "dropWhile (\<lambda>c. c \<noteq> CHR ''/'') s = x # r"
  then have "length r < length (dropWhile (\<lambda>c. c \<noteq> CHR ''/'') s)" by simp
  also have "\<dots> \<le> length s" by (rule length_dropWhile_le)
  finally show "(r, s) \<in> measure length" by simp
qed

declare split_slash.simps [simp del]

definition path_components :: "string \<Rightarrow> string list" where
  "path_components s = filter (\<lambda>c. c \<noteq> []) (split_slash s)"

definition walk_pieces :: "string \<Rightarrow> string list" where
  "walk_pieces s =
     (let cs = split_slash s in if last cs = [] then butlast cs else cs)"

definition cd_start :: "session \<Rightarrow> string \<Rightarrow> (nfs_fh3 \<times> string) option" where
  "cd_start s path =
     (case path of
        [] \<Rightarrow> Some (directory_handle s, path)
      | c # r \<Rightarrow>
          if c = CHR ''/''
          then map_option (\<lambda>mp. (fhandle3_to_nfs_fh3 (mountinfo_fhandle mp), r)) (mountpoint s)
          else Some (directory_handle s, path))"

text \<open>
  The walk in the words of the specification: each component of a list in turn is
  resolved by a LOOKUP from the handle reached so far, and the first reply that is not an
  NFS3_OK result for a directory ends the walk without a handle. \<open>resolve\<close> gives the
  calls with their replies, and the final handle if there is one.
\<close>

fun resolve ::
  "nfs_fh3 \<Rightarrow> string list \<Rightarrow> rpc_reply list \<Rightarrow> (rpc_call \<times> rpc_reply) list \<times> nfs_fh3 option"
where
  "resolve h [] rs = ([], Some h)"
| "resolve h (c # cs) [] = ([(LOOKUP \<lparr>what = \<lparr>dir = h, name = c\<rparr>\<rparr>, RPC_FAILED)], None)"
| "resolve h (c # cs) (r # rs) =
     (case r of
        LOOKUP3 res \<Rightarrow>
          if lookup_dir_ok r
          then (case resolve (object (resok res)) cs rs of
                  (l, x) \<Rightarrow> ((LOOKUP \<lparr>what = \<lparr>dir = h, name = c\<rparr>\<rparr>, r) # l, x))
          else ([(LOOKUP \<lparr>what = \<lparr>dir = h, name = c\<rparr>\<rparr>, r)], None)
      | _ \<Rightarrow> ([(LOOKUP \<lparr>what = \<lparr>dir = h, name = c\<rparr>\<rparr>, r)], None))"

section \<open>Sample values\<close>

text \<open>
  Values for the worked instances below: a file handle with the given bytes, a LOOKUP
  reply, a world that holds the given replies, has every port free and nothing else, and
  a session with a file system mounted whose current directory has the given handle.
\<close>

text \<open>
  The argument vector that \<open>ngetline\<close> makes of a line of words with one blank between
  them and a newline at the end. \<open>fgets\<close> has put a NUL after the newline;
  \<open>ngetline\<close> writes a NUL over the blank or the newline that ends a word, and
  \<open>argv[i]\<close> points to the first byte of the word in the line buffer. So the bytes at
  \<open>argv[i]\<close> are the word, a NUL, and then the later words, each with its NUL, and the
  NUL of \<open>fgets\<close>.
\<close>

fun argv_of :: "string list \<Rightarrow> cptr list" where
  "argv_of [] = []"
| "argv_of (x # xs) =
     (x @ NUL # (case argv_of xs of [] \<Rightarrow> [NUL] | a # _ \<Rightarrow> a)) # argv_of xs"

definition handle_of :: "string \<Rightarrow> nfs_fh3" where
  "handle_of bs = \<lparr>data_len = length bs, data_val = bs\<rparr>"

definition lookup_reply :: "nfsstat3 \<Rightarrow> nfs_fh3 \<Rightarrow> ftype3 \<Rightarrow> int \<Rightarrow> rpc_reply" where
  "lookup_reply st h t sz =
     LOOKUP3 \<lparr>status = st, resok = \<lparr>object = h, obj_attributes =
       \<lparr>attributes_follow = True,
        attributes = \<lparr>attr_type = t, attr_mode = 420, attr_size = sz\<rparr>\<rparr>\<rparr>\<rparr>"

definition world_of :: "rpc_reply list \<Rightarrow> world" where
  "world_of rs =
     \<lparr>replies = rs, log = [], out = [], oom_after = None, files = (\<lambda>_. None),
      net = \<lparr>socket_res = 3, bind_res = (\<lambda>_. None)\<rparr>\<rparr>"

definition session_at :: "nfs_fh3 \<Rightarrow> session" where
  "session_at h =
     \<lparr>verbose = False, authtype = AUTH_UNIX, uid = - 2, gid = - 2,
      mountpath = Some ''/srv/x'', remotehost = Some ''server'',
      mntclient = Some 1, nfsclient = Some 2,
      mountpoint = Some \<lparr>fhs_status = 0,
        mountinfo_fhandle = \<lparr>fhandle3_len = 4, fhandle3_val = ''root''\<rparr>\<rparr>,
      directory_handle = h, transfersize = 8192, clients = [1, 2]\<rparr>"

section \<open>chmod and chown\<close>

text \<open>
  What \<open>sscanf\<close> does for a conversion \<open>%d\<close> (base 10) or \<open>%o\<close> (base 8): it skips
  white space, takes an optional sign and then the digits of the base, at least one. The
  result is the number and the rest of the input. The number is the mathematical one: C
  defines the conversion only for a value that fits the variable.
\<close>

definition isspace :: "char \<Rightarrow> bool" where
  "isspace c = (c \<in> set [CHR '' '', CHR 0x09, CHR 0x0A, CHR 0x0B, CHR 0x0C, CHR 0x0D])"

definition is_digit :: "nat \<Rightarrow> char \<Rightarrow> bool" where
  "is_digit base c = (48 \<le> (of_char c :: nat) \<and> (of_char c :: nat) < 48 + base)"

definition number_of :: "nat \<Rightarrow> string \<Rightarrow> nat" where
  "number_of base ds = foldl (\<lambda>a c. a * base + (of_char c - 48)) 0 ds"

definition scan_number :: "nat \<Rightarrow> string \<Rightarrow> (int \<times> string) option" where
  "scan_number base str =
     (let s1 = dropWhile isspace str;
          neg = (case s1 of [] \<Rightarrow> False | c # _ \<Rightarrow> c = CHR ''-'');
          s2 = (case s1 of [] \<Rightarrow> s1 | c # r \<Rightarrow> if c = CHR ''-'' \<or> c = CHR ''+'' then r else s1);
          ds = takeWhile (is_digit base) s2
      in if ds = [] then None
         else Some (if neg then - int (number_of base ds) else int (number_of base ds),
                    dropWhile (is_digit base) s2))"

text \<open>
  \<open>sscanf(str, "%o", &mode)\<close> and \<open>sscanf(str, "%d", &own_uid)\<close>: \<open>Some\<close> of the
  value when the call returns 1. \<open>sscanf(str, "%d.%d", &own_uid, &own_gid)\<close>: \<open>Some\<close>
  of the two values when the call returns 2.
\<close>

definition sscanf_o :: "string \<Rightarrow> int option" where
  "sscanf_o str = map_option fst (scan_number 8 str)"

definition sscanf_d :: "string \<Rightarrow> int option" where
  "sscanf_d str = map_option fst (scan_number 10 str)"

definition sscanf_d_dot_d :: "string \<Rightarrow> (int \<times> int) option" where
  "sscanf_d_dot_d str =
     (case scan_number 10 str of
        None \<Rightarrow> None
      | Some (u, r) \<Rightarrow>
          (case r of
             [] \<Rightarrow> None
           | c # r' \<Rightarrow>
               if c = CHR ''.''
               then (case scan_number 10 r' of None \<Rightarrow> None | Some (g, _) \<Rightarrow> Some (u, g))
               else None))"

definition do_chmod :: "cptr list \<Rightarrow> session \<Rightarrow> world \<Rightarrow> world" where
  "do_chmod argv s w =
     (if mountpath s = None
      then fprintf_stderr ''chmod: no remote file system mounted'' w
      else if length argv \<noteq> 3
      then fprintf_stderr ''Usage: chmod <mode> <file>'' w
      else
        (case sscanf_o (str_of (argv ! 1)) of
           None \<Rightarrow> fprintf_stderr ''chmod: invalid mode'' w
         | Some mode \<Rightarrow>
             (case nfs3_lookup_3
                     \<lparr>what = \<lparr>dir = nfs_fh3copy (directory_handle s),
                               name = str_of (argv ! 2)\<rparr>\<rparr> w of
                (None, w1) \<Rightarrow> clnt_perror ''nfs3_lookup'' w1
              | (Some dres, w1) \<Rightarrow>
                  if status dres \<noteq> NFS3_OK
                  then fprintf_stderr (str_of (argv ! 2) @ '': '' @ nfs_error (status dres)) w1
                  else
                    (case nfs3_setattr_3
                            \<lparr>sa_object = nfs_fh3copy (object (resok dres)),
                             new_attributes =
                               \<lparr>set_mode = Some (uint32 mode), set_uid = None,
                                set_gid = None, set_size = None,
                                set_atime = DONT_CHANGE, set_mtime = DONT_CHANGE\<rparr>,
                             guard_check = False\<rparr> w1 of
                       (None, w2) \<Rightarrow> clnt_perror ''nfs3_setattr'' w2
                     | (Some ares, w2) \<Rightarrow>
                         if status ares \<noteq> NFS3_OK
                         then fprintf_stderr
                                (''Set attributes failed: '' @ nfs_error (status ares)) w2
                         else w2))))"

text \<open>
  In \<open>do_chown\<close> the locals \<open>own_uid\<close> and \<open>own_gid\<close> are set by the first \<open>sscanf\<close>
  when it returns 2; otherwise \<open>own_gid\<close> is set to -1 and \<open>own_uid\<close> by the second
  \<open>sscanf\<close>. \<open>chown_setattr\<close> is the rest of the function, from the LOOKUP on.
\<close>

definition chown_setattr :: "int \<Rightarrow> int \<Rightarrow> cptr list \<Rightarrow> session \<Rightarrow> world \<Rightarrow> world" where
  "chown_setattr own_uid own_gid argv s w =
     (case nfs3_lookup_3
             \<lparr>what = \<lparr>dir = nfs_fh3copy (directory_handle s),
                       name = str_of (argv ! 2)\<rparr>\<rparr> w of
        (None, w1) \<Rightarrow> clnt_perror ''nfs3_lookup'' w1
      | (Some dres, w1) \<Rightarrow>
          if status dres \<noteq> NFS3_OK
          then fprintf_stderr (str_of (argv ! 2) @ '': '' @ nfs_error (status dres)) w1
          else
            (case nfs3_setattr_3
                    \<lparr>sa_object = nfs_fh3copy (object (resok dres)),
                     new_attributes =
                       \<lparr>set_mode = None, set_uid = Some (uint32 own_uid),
                        set_gid = Some (uint32 own_gid), set_size = None,
                        set_atime = DONT_CHANGE, set_mtime = DONT_CHANGE\<rparr>,
                     guard_check = False\<rparr> w1 of
               (None, w2) \<Rightarrow> clnt_perror ''nfs3_setattr'' w2
             | (Some ares, w2) \<Rightarrow>
                 if status ares \<noteq> NFS3_OK
                 then fprintf_stderr
                        (''Set attributes failed: '' @ nfs_error (status ares)) w2
                 else w2))"

definition do_chown :: "cptr list \<Rightarrow> session \<Rightarrow> world \<Rightarrow> world" where
  "do_chown argv s w =
     (if mountpath s = None
      then fprintf_stderr ''chown: no remote file system mounted'' w
      else if length argv \<noteq> 3
      then fprintf_stderr ''Usage: chown <uid>[.<gid>] <file>'' w
      else
        (case sscanf_d_dot_d (str_of (argv ! 1)) of
           Some (own_uid, own_gid) \<Rightarrow> chown_setattr own_uid own_gid argv s w
         | None \<Rightarrow>
             (case sscanf_d (str_of (argv ! 1)) of
                None \<Rightarrow> fprintf_stderr ''chown: invalid uid[.gid]'' w
              | Some own_uid \<Rightarrow> chown_setattr own_uid (- 1) argv s w)))"

section \<open>Reading a directory\<close>

text \<open>An allocation: whether it succeeds, and the world after it.\<close>

definition alloc :: "world \<Rightarrow> bool \<times> world" where
  "alloc w =
     (case oom_after w of
        None \<Rightarrow> (True, w)
      | Some 0 \<Rightarrow> (False, w)
      | Some (Suc k) \<Rightarrow> (True, w\<lparr>oom_after := Some k\<rparr>))"

text \<open>
  \<open>realloc\<close> of a block to \<open>n\<close> elements. For a positive size it is an allocation.
  For the size 0 C leaves the result to the implementation; the GNU C library frees the
  block and returns NULL, and that is what is taken here.
\<close>

definition realloc :: "nat \<Rightarrow> world \<Rightarrow> bool \<times> world" where
  "realloc n w = (if n = 0 then (False, w) else alloc w)"

text \<open>
  The \<open>while (ep != NULL)\<close> loop of \<open>getdirentries\<close> over the entries of one reply.
  \<open>tbl\<close> holds the names stored so far, \<open>*table\<close> up to \<open>*ptr\<close>, and \<open>nentries\<close> is
  the capacity of the table, so that \<open>*ptr == last\<close> says that the two are equal. The
  result is \<open>False\<close> when the function returned 0 from within the loop (\<open>strdup\<close>
  failed), and the fault \<open>EXIT 1\<close> when \<open>realloc\<close> failed. With a table of no
  entries the first name asks \<open>realloc\<close> for the size 0.
\<close>

fun add_entries ::
  "entry3 list \<Rightarrow> string list \<Rightarrow> nat \<Rightarrow> world \<Rightarrow> fault + bool \<times> string list \<times> nat \<times> world"
where
  "add_entries [] tbl nentries w = Inr (True, tbl, nentries, w)"
| "add_entries (ep # es) tbl nentries w =
     (case (if length tbl = nentries
            then (case realloc (2 * nentries) w of
                    (False, w1) \<Rightarrow> Inl (EXIT 1)
                  | (True, w1) \<Rightarrow> Inr (2 * nentries, w1))
            else Inr (nentries, w)) of
        Inl f \<Rightarrow> Inl f
      | Inr (nentries1, w1) \<Rightarrow>
          (case alloc w1 of
             (False, w2) \<Rightarrow> Inr (False, tbl, nentries1, w2)
           | (True, w2) \<Rightarrow> add_entries es (tbl @ [entry_name ep]) nentries1 w2))"

text \<open>
  \<open>qsort\<close> with \<open>dircmp\<close> orders the names by \<open>strcmp\<close>: byte by byte, as unsigned
  values, a proper prefix first. That is the order of \<open>string\<close> here, and a list has
  one sorted arrangement only, whatever the sorting algorithm.
\<close>

definition qsort_dircmp :: "string list \<Rightarrow> string list" where
  "qsort_dircmp tbl = sort tbl"

text \<open>
  The \<open>for (;;)\<close> loop of \<open>getdirentries\<close> with what follows it. The result is the
  value returned, the table and the world. After a reply without \<open>eof\<close> the loop reads
  the cookie of the last entry through \<open>ep\<close>, which is NULL when the reply has no entry.
\<close>

function getdirentries_loop ::
  "READDIR3args \<Rightarrow> string list \<Rightarrow> nat \<Rightarrow> world \<Rightarrow> fault + int \<times> string list \<times> world"
where
  "getdirentries_loop args tbl nentries w =
     (case nfs3_readdir_3 args w of
        (None, w1) \<Rightarrow> Inr (1, qsort_dircmp tbl, clnt_perror ''nfs3_readdir'' w1)
      | (Some res, w1) \<Rightarrow>
          if status res \<noteq> NFS3_OK
          then Inr (1, qsort_dircmp tbl,
                 fprintf_stderr (''Readdir failed: '' @ nfs_error (status res)) w1)
          else
            (case add_entries (reply_entries (resok res)) tbl nentries w1 of
               Inl f \<Rightarrow> Inl f
             | Inr (False, tbl1, nentries1, w2) \<Rightarrow> Inr (0, tbl1, w2)
             | Inr (True, tbl1, nentries1, w2) \<Rightarrow>
                 if reply_eof (resok res) then Inr (1, qsort_dircmp tbl1, w2)
                 else if reply_entries (resok res) = [] then Inl UNDEFINED
                 else getdirentries_loop
                        (args\<lparr>readdir_cookie := entry_cookie (last (reply_entries (resok res)))\<rparr>)
                        tbl1 nentries1 w2))"
  by pat_completeness auto
termination
proof (relation "measure (\<lambda>(args, tbl, nentries, w). length (replies w))")
  show "wf (measure (\<lambda>(args, tbl, nentries, w). length (replies w)))" by simp
next
  fix args :: READDIR3args and tbl :: "string list" and nentries :: nat and w w1 w2 :: world
    and x res y b z tbl1 v nentries1
  assume rd: "(x, w1) = nfs3_readdir_3 args w" and x: "x = Some res"
    and ae: "add_entries (reply_entries (resok res)) tbl nentries w1 = Inr y"
    and y: "(b, z) = y" "(tbl1, v) = z" "(nentries1, w2) = v"
  have keep: "\<And>es t n u r. add_entries es t n u = Inr r \<Longrightarrow>
      replies (snd (snd (snd r))) = replies u"
  proof -
    fix es t n u r
    show "add_entries es t n u = Inr r \<Longrightarrow> replies (snd (snd (snd r))) = replies u"
    proof (induction es arbitrary: t n u)
      case Nil
      then show ?case by auto
    next
      case (Cons e es)
      then show ?case
        by (fastforce simp: alloc_def realloc_def
              split: if_splits option.splits nat.splits sum.splits prod.splits bool.splits)
    qed
  qed
  have "replies w2 = replies w1" using keep [OF ae] y by auto
  moreover have "length (replies w1) < length (replies w)"
    using rd x by (auto simp: nfs3_readdir_3_def rpc_def split: list.splits rpc_reply.splits)
  ultimately show "((args\<lparr>readdir_cookie := entry_cookie (last (reply_entries (resok res)))\<rparr>,
        tbl1, nentries1, w2), args, tbl, nentries, w)
      \<in> measure (\<lambda>(args, tbl, nentries, w). length (replies w))"
    by simp
qed

declare getdirentries_loop.simps [simp del]

definition getdirentries ::
  "nfs_fh3 \<Rightarrow> nat \<Rightarrow> world \<Rightarrow> fault + int \<times> string list \<times> world" where
  "getdirentries dirhandle nentries w =
     (case alloc w of
        (False, w1) \<Rightarrow> Inr (0, [], fprintf_stderr ''getdirentries: out of memory'' w1)
      | (True, w1) \<Rightarrow>
          getdirentries_loop
            \<lparr>readdir_dir = nfs_fh3copy dirhandle, readdir_cookie = 0, readdir_count = 8192\<rparr>
            [] nentries w1)"

text \<open>
  For the statements about \<open>getdirentries\<close>: the names carried by a sequence of READDIR
  results, in the order of arrival, and a READDIR reply made of a status, the names with
  their cookies, and the \<open>eof\<close> flag.
\<close>

definition names_of :: "READDIR3res list \<Rightarrow> string list" where
  "names_of rs = concat (map (\<lambda>r. map entry_name (reply_entries (resok r))) rs)"

definition readdir_reply :: "nfsstat3 \<Rightarrow> (string \<times> nat) list \<Rightarrow> bool \<Rightarrow> READDIR3res" where
  "readdir_reply st es e =
     \<lparr>status = st,
      resok = \<lparr>reply_entries = map (\<lambda>(n, c). \<lparr>entry_name = n, entry_cookie = c\<rparr>) es,
               reply_eof = e\<rparr>\<rparr>"

section \<open>Reading a file: cat and get\<close>

text \<open>
  \<open>fwrite\<close> of the data of a READ result, to the standard output in \<open>do_cat\<close> and to
  the local file in \<open>do_get\<close>.
\<close>

definition fwrite_stdout :: "string \<Rightarrow> world \<Rightarrow> world" where
  "fwrite_stdout bytes w = w\<lparr>out := out w @ [Stdout bytes]\<rparr>"

definition fwrite_fp :: "string \<Rightarrow> world \<Rightarrow> world" where
  "fwrite_fp bytes w = w\<lparr>out := out w @ [Fwrite bytes]\<rparr>"

text \<open>
  The \<open>for\<close> loop of \<open>do_cat\<close>. \<open>offset\<close> is a \<open>long\<close>; the comparison with the
  size and the assignment to \<open>rargs.offset\<close> convert it to an unsigned 64-bit number,
  the assignment of \<open>transfersize\<close> to \<open>rargs.count\<close> to an unsigned 32-bit number.
\<close>

definition uint64 :: "int \<Rightarrow> int" where
  "uint64 i = i mod 2 ^ 64"

function do_cat_read_loop ::
  "string \<Rightarrow> nfs_fh3 \<Rightarrow> int \<Rightarrow> int \<Rightarrow> int \<Rightarrow> world \<Rightarrow> world"
where
  "do_cat_read_loop argv1 fh sz tsize offset w =
     (if uint64 offset < sz
      then
        (case nfs3_read_3
                \<lparr>read_file = fh, read_offset = uint64 offset, read_count = uint32 tsize\<rparr> w of
           (None, w1) \<Rightarrow> clnt_perror ''nfs3_read_3'' w1
         | (Some rres, w1) \<Rightarrow>
             if status rres \<noteq> NFS3_OK
             then fprintf_stderr (argv1 @ '': '' @ nfs_error (status rres)) w1
             else do_cat_read_loop argv1 fh sz tsize (offset + tsize)
                    (fwrite_stdout (data (resok rres)) w1))
      else w)"
  by pat_completeness auto
termination
proof (relation "measure (\<lambda>(argv1, fh, sz, tsize, offset, w). length (replies w))")
  show "wf (measure (\<lambda>(argv1, fh, sz, tsize, offset, w). length (replies w)))" by simp
next
  fix argv1 :: string and fh :: nfs_fh3 and sz tsize offset :: int
    and w w1 :: world and x rres
  assume "(x, w1) = nfs3_read_3
      \<lparr>read_file = fh, read_offset = uint64 offset, read_count = uint32 tsize\<rparr> w"
    and "x = Some rres"
  then have "length (replies w1) < length (replies w)"
    by (auto simp: nfs3_read_3_def rpc_def split: list.splits rpc_reply.splits)
  then show "((argv1, fh, sz, tsize, offset + tsize, fwrite_stdout (data (resok rres)) w1),
        argv1, fh, sz, tsize, offset, w)
      \<in> measure (\<lambda>(argv1, fh, sz, tsize, offset, w). length (replies w))"
    by (simp add: fwrite_stdout_def)
qed

declare do_cat_read_loop.simps [simp del]

definition do_cat :: "cptr list \<Rightarrow> session \<Rightarrow> world \<Rightarrow> world" where
  "do_cat argv s w =
     (if mountpath s = None
      then fprintf_stderr ''cat: no remote file system mounted'' w
      else if length argv \<noteq> 2
      then fprintf_stderr ''Usage: cat <filespec>'' w
      else
        (case nfs3_lookup_3
                \<lparr>what = \<lparr>dir = nfs_fh3copy (directory_handle s),
                          name = str_of (argv ! 1)\<rparr>\<rparr> w of
           (None, w1) \<Rightarrow> clnt_perror ''nfs3_lookup'' w1
         | (Some dres, w1) \<Rightarrow>
             if status dres \<noteq> NFS3_OK
             then fprintf_stderr (str_of (argv ! 1) @ '': '' @ nfs_error (status dres)) w1
             else if attr_type (attributes (obj_attributes (resok dres))) \<noteq> NF3REG
             then fprintf_stderr (str_of (argv ! 1) @ '': is not a regular file'') w1
             else do_cat_read_loop (str_of (argv ! 1)) (nfs_fh3copy (object (resok dres)))
                    (attr_size (attributes (obj_attributes (resok dres))))
                    (transfersize s) 0 w1))"

text \<open>
  The \<open>for\<close> loop of \<open>do_get\<close> that receives one file. \<open>offset\<close> is a \<open>size3\<close>, an
  unsigned 64-bit number, and so is the size of the file. The line written for a status other than NFS3_OK names
  \<open>argv[1]\<close>, which is the second pattern on the command line and \<open>None\<close> here when
  there is none: the slot of \<open>argv\<close> behind the arguments holds no defined pointer then.
  The result is the final \<open>offset\<close> and the world.
\<close>

function do_get_read_loop ::
  "string option \<Rightarrow> nfs_fh3 \<Rightarrow> int \<Rightarrow> int \<Rightarrow> int \<Rightarrow> world \<Rightarrow> fault + int \<times> world"
where
  "do_get_read_loop argv1 fh sz tsize offset w =
     (if offset < sz
      then
        (case nfs3_read_3
                \<lparr>read_file = fh, read_offset = offset, read_count = uint32 tsize\<rparr> w of
           (None, w1) \<Rightarrow> Inr (offset, clnt_perror ''nfs3_read'' w1)
         | (Some rres, w1) \<Rightarrow>
             if status rres \<noteq> NFS3_OK
             then (case argv1 of
                     None \<Rightarrow> Inl UNDEFINED
                   | Some a \<Rightarrow>
                       Inr (offset, fprintf_stderr (a @ '': '' @ nfs_error (status rres)) w1))
             else if eof (resok rres)
             then Inr (uint64 (offset + int (length (data (resok rres)))),
                       fwrite_fp (data (resok rres)) w1)
             else do_get_read_loop argv1 fh sz tsize
                    (uint64 (offset + int (length (data (resok rres)))))
                    (fwrite_fp (data (resok rres)) w1))
      else Inr (offset, w))"
  by pat_completeness auto
termination
proof (relation "measure (\<lambda>(argv1, fh, sz, tsize, offset, w). length (replies w))")
  show "wf (measure (\<lambda>(argv1, fh, sz, tsize, offset, w). length (replies w)))" by simp
next
  fix argv1 :: "string option" and fh :: nfs_fh3 and sz tsize offset :: int
    and w w1 :: world and x rres
  assume "(x, w1) = nfs3_read_3
      \<lparr>read_file = fh, read_offset = offset, read_count = uint32 tsize\<rparr> w"
    and "x = Some rres"
  then have "length (replies w1) < length (replies w)"
    by (auto simp: nfs3_read_3_def rpc_def split: list.splits rpc_reply.splits)
  then show "((argv1, fh, sz, tsize, uint64 (offset + int (length (data (resok rres)))),
        fwrite_fp (data (resok rres)) w1), argv1, fh, sz, tsize, offset, w)
      \<in> measure (\<lambda>(argv1, fh, sz, tsize, offset, w). length (replies w))"
    by (simp add: fwrite_fp_def)
qed

declare do_get_read_loop.simps [simp del]

text \<open>
  What \<open>do_get\<close> does for one file \<open>*p\<close> between \<open>fopen\<close> and \<open>fclose\<close>, given the
  LOOKUP result \<open>res\<close> of the file: the loop, then the comparison of \<open>offset\<close> with the
  size. After it \<open>do_get\<close> closes the file and goes on with the next name.
\<close>

definition do_get_transfer ::
  "string option \<Rightarrow> string \<Rightarrow> LOOKUP3res \<Rightarrow> session \<Rightarrow> world \<Rightarrow> fault + world" where
  "do_get_transfer argv1 p res s w =
     (case do_get_read_loop argv1 (nfs_fh3copy (object (resok res)))
             (attr_size (attributes (obj_attributes (resok res)))) (transfersize s) 0 w of
        Inl f \<Rightarrow> Inl f
      | Inr (offset, w1) \<Rightarrow>
          Inr (if offset \<noteq> attr_size (attributes (obj_attributes (resok res)))
               then fprintf_stderr
                      (p @ '': size mismatch on read (expected ''
                         @ show_int (attr_size (attributes (obj_attributes (resok res))))
                         @ '', read '' @ show_int offset @ '')'') w1
               else w1))"

text \<open>
  For the statements about the two loops: a READ reply made of a status, the bytes and
  the \<open>eof\<close> flag; and what the claim says of the calls of one loop, as a test on the
  calls with their replies: every READ is for the same file with the same count, the
  first at \<open>off\<close>, each next one at the offset advanced by the number of bytes the reply
  before it carried, and no call follows a reply that has \<open>eof\<close> set, a status other
  than NFS3_OK, or is no READ result.
\<close>

definition read_reply :: "nfsstat3 \<Rightarrow> string \<Rightarrow> bool \<Rightarrow> rpc_reply" where
  "read_reply st bytes e = READ3 \<lparr>status = st, resok = \<lparr>eof = e, data = bytes\<rparr>\<rparr>"

fun read_chain :: "nfs_fh3 \<Rightarrow> int \<Rightarrow> int \<Rightarrow> (rpc_call \<times> rpc_reply) list \<Rightarrow> bool" where
  "read_chain fh cnt off [] = True"
| "read_chain fh cnt off ((c, r) # es) =
     (c = READ \<lparr>read_file = fh, read_offset = off, read_count = cnt\<rparr> \<and>
      (case r of
         READ3 rres \<Rightarrow>
           if status rres = NFS3_OK \<and> \<not> eof (resok rres)
           then read_chain fh cnt (uint64 (off + int (length (data (resok rres))))) es
           else es = []
       | _ \<Rightarrow> es = []))"

section \<open>put\<close>

text \<open>
  The size of the buffer \<open>buf\<close> of \<open>do_put\<close>, \<open>BUFSIZ\<close> of stdio.h: 8192 in the C
  library of the Linux target. \<open>fread\<close> on the local file fills the buffer as long as
  bytes are left, so that the file goes out in pieces of this size and a shorter last one.
\<close>

definition BUFSIZ :: nat where
  "BUFSIZ = 8192"

text \<open>
  The \<open>for\<close> loop of \<open>do_put\<close>, with the handle of the remote file, the local
  \<open>offset\<close> (a \<open>long\<close>) and the part of the local file not yet read. \<open>WRITE3args wargs
  = { 0 }\<close> leaves \<open>stable\<close> at 0, which is UNSTABLE.
\<close>

function put_write_loop :: "nfs_fh3 \<Rightarrow> int \<Rightarrow> string \<Rightarrow> world \<Rightarrow> world" where
  "put_write_loop handle offset content w =
     (let buf = take BUFSIZ content; n = int (length buf) in
      if n > 0
      then
        (case nfs3_write_3
                \<lparr>wr_file = nfs_fh3copy handle, wr_offset = uint64 offset,
                 wr_count = uint32 n, wr_stable = UNSTABLE, wr_data = buf\<rparr> w of
           (None, w1) \<Rightarrow> clnt_perror ''nfs3_write'' w1
         | (Some wres, w1) \<Rightarrow>
             if status wres \<noteq> NFS3_OK
             then fprintf_stderr (''Write failed: '' @ nfs_error (status wres)) w1
             else put_write_loop handle (offset + n) (drop BUFSIZ content) w1)
      else w)"
  by pat_completeness auto
termination
proof (relation "measure (\<lambda>(handle, offset, content, w). length content)")
  show "wf (measure (\<lambda>(handle, offset, content, w). length content))" by simp
next
  fix handle :: nfs_fh3 and offset :: int and content :: string and w w1 :: world
    and buf n xa x wres
  assume "buf = take BUFSIZ content" and "n = int (length buf)" and "0 < n"
  then have "0 < BUFSIZ" and "content \<noteq> []" by auto
  then show "((handle, offset + n, drop BUFSIZ content, w1), handle, offset, content, w)
      \<in> measure (\<lambda>(handle, offset, content, w). length content)"
    by simp
qed

declare put_write_loop.simps [simp del]

text \<open>The remote name: \<open>argc == 3 ? argv[2] : argv[1]\<close>.\<close>

definition put_remote_name :: "cptr list \<Rightarrow> string" where
  "put_remote_name argv = (if length argv = 3 then str_of (argv ! 2) else str_of (argv ! 1))"

definition do_put :: "cptr list \<Rightarrow> session \<Rightarrow> world \<Rightarrow> world" where
  "do_put argv s w =
     (if mountpath s = None
      then fprintf_stderr ''put: no remote file system mounted'' w
      else if length argv \<noteq> 2 \<and> length argv \<noteq> 3
      then fprintf_stderr ''Usage: put <local-file> [<remote-file>]'' w
      else
        (case files w (str_of (argv ! 1)) of
           None \<Rightarrow> fprintf_stderr (''put: cannot open '' @ str_of (argv ! 1)) w
         | Some content \<Rightarrow>
             (case nfs3_create_3
                     \<lparr>cr_where = \<lparr>dir = nfs_fh3copy (directory_handle s),
                                  name = put_remote_name argv\<rparr>,
                      how_mode = EXCLUSIVE,
                      how_obj_attributes =
                        \<lparr>set_mode = Some 438, set_uid = Some (uint32 (uid s)),
                         set_gid = Some (uint32 (gid s)), set_size = None,
                         set_atime = DONT_CHANGE, set_mtime = DONT_CHANGE\<rparr>\<rparr> w of
                (None, w1) \<Rightarrow> clnt_perror ''nfs3_create'' w1
              | (Some cres, w1) \<Rightarrow>
                  (case nfs3_lookup_3
                          \<lparr>what = \<lparr>dir = nfs_fh3copy (directory_handle s),
                                    name = put_remote_name argv\<rparr>\<rparr>
                          (if status cres \<noteq> NFS3_OK
                           then fprintf_stderr
                                  (''WARNING: Create failed: '' @ nfs_error (status cres)) w1
                           else w1) of
                     (None, w2) \<Rightarrow> clnt_perror ''nfs3_lookup'' w2
                   | (Some dres, w2) \<Rightarrow>
                       if status dres \<noteq> NFS3_OK
                       then fprintf_stderr
                              (str_of (argv ! 1) @ '': '' @ nfs_error (status dres)) w2
                       else put_write_loop (nfs_fh3copy (object (resok dres))) 0 content w2))))"

text \<open>
  For the statements about \<open>do_put\<close>: the WRITE calls that carry a file of the given
  content to the given handle from the given offset on, piece by piece.
\<close>

function write_calls :: "nfs_fh3 \<Rightarrow> int \<Rightarrow> string \<Rightarrow> WRITE3args list" where
  "write_calls h off content =
     (if BUFSIZ = 0 \<or> content = [] then []
      else \<lparr>wr_file = h, wr_offset = uint64 off,
            wr_count = uint32 (int (length (take BUFSIZ content))),
            wr_stable = UNSTABLE, wr_data = take BUFSIZ content\<rparr>
           # write_calls h (off + int (length (take BUFSIZ content))) (drop BUFSIZ content))"
  by pat_completeness auto
termination
  by (relation "measure (\<lambda>(h, off, content). length content)") auto

declare write_calls.simps [simp del]

section \<open>Channels: mount, umount, uid and gid\<close>

unbundle bit_operations_syntax

text \<open>
  A pointer to a \<open>CLIENT\<close> may be used when it is not NULL and the object it points
  to has not been destroyed.
\<close>

definition live :: "nat option \<Rightarrow> session \<Rightarrow> bool" where
  "live c s = (case c of None \<Rightarrow> False | Some a \<Rightarrow> a \<in> set (clients s))"

definition printf_stdout :: "string \<Rightarrow> world \<Rightarrow> world" where
  "printf_stdout str w = w\<lparr>out := out w @ [Stdout str]\<rparr>"

definition perror :: "string \<Rightarrow> world \<Rightarrow> world" where
  "perror str w = w\<lparr>out := out w @ [Perror str]\<rparr>"

definition clnt_pcreateerror :: "string \<Rightarrow> world \<Rightarrow> world" where
  "clnt_pcreateerror str w = w\<lparr>out := out w @ [Clnt_pcreateerror str]\<rparr>"

definition clnt_perrno :: "world \<Rightarrow> world" where
  "clnt_perrno w = w\<lparr>out := out w @ [Clnt_perrno]\<rparr>"

text \<open>
  \<open>atoi\<close>: the number at the start of the string, 0 when there is none. As for
  \<open>sscanf\<close>, it is the mathematical value.
\<close>

definition atoi :: "cptr \<Rightarrow> int" where
  "atoi str = (case scan_number 10 str of None \<Rightarrow> 0 | Some (n, _) \<Rightarrow> n)"

text \<open>
  \<open>create_authenticator\<close>. The handle that \<open>authunix_create\<close> returns is not part of
  the model; what is left of the function is whether it returns or leaves the program
  by \<open>exit(1)\<close>, after a line to stderr that the fault does not keep.
\<close>

definition create_authenticator :: "session \<Rightarrow> world \<Rightarrow> fault + world" where
  "create_authenticator s w =
     (if authtype s = AUTH_UNIX
      then (case rpc GETHOSTNAME w of
              (HOSTNAME h, w1) \<Rightarrow> Inr w1
            | (_, w1) \<Rightarrow> Inl (EXIT 1))
      else Inl (EXIT 1))"

text \<open>
  \<open>do_setuid\<close> and \<open>do_setgid\<close>. With three words \<open>do_setuid\<close> copies HEXKEYBYTES
  bytes from the third into \<open>secretkey\<close>; the model does not hold \<open>secretkey\<close>, and
  it takes these bytes to lie within the line buffer, which has room for BUFSIZ bytes.
  Both functions then replace the authenticator of the NFS client, which they reach
  through \<open>nfsclient\<close> whenever that pointer is not NULL. As for \<open>do_cd\<close>, \<open>argv\<close>
  holds the command word at least.
\<close>

definition renew_auth :: "session \<Rightarrow> world \<Rightarrow> fault + session \<times> world" where
  "renew_auth s w =
     (case nfsclient s of
        None \<Rightarrow> Inr (s, w)
      | Some a \<Rightarrow>
          if live (nfsclient s) s
          then (case create_authenticator s w of
                  Inl f \<Rightarrow> Inl f
                | Inr w1 \<Rightarrow> Inr (s, w1))
          else Inl UNDEFINED)"

definition do_setuid :: "cptr list \<Rightarrow> session \<Rightarrow> world \<Rightarrow> fault + session \<times> world" where
  "do_setuid argv s w =
     (if argv = [] then Inl UNDEFINED
      else if length argv > 3
      then Inr (s, fprintf_stderr ''Usage: uid [<uid> [<secret-key>]]'' w)
      else if length argv \<le> 2
      then renew_auth
             (s\<lparr>authtype := AUTH_UNIX,
                uid := (if length argv = 1 then - 2 else atoi (argv ! 1))\<rparr>) w
      else renew_auth (s\<lparr>authtype := AUTH_DES\<rparr>) w)"

definition do_setgid :: "cptr list \<Rightarrow> session \<Rightarrow> world \<Rightarrow> fault + session \<times> world" where
  "do_setgid argv s w =
     renew_auth (s\<lparr>gid := (if length argv = 2 then atoi (argv ! 1) else - 2)\<rparr>) w"

text \<open>
  \<open>close_nfs\<close>. The UMNT call goes through \<open>mntclient\<close>; its result is not looked
  at. \<open>clnt_destroy\<close> takes the client from the live ones; \<open>nfsclient\<close> itself is not
  assigned to.
\<close>

definition close_nfs :: "session \<Rightarrow> world \<Rightarrow> fault + session \<times> world" where
  "close_nfs s w =
     (case mountpath s of
        None \<Rightarrow> Inr (s, w)
      | Some mp \<Rightarrow>
          (let w1 = (if verbose s
                     then printf_stdout (''Unmount `'' @ mp @ [CHR 0x27, CHR 0x0A]) w
                     else w)
           in if live (mntclient s) s
              then (case rpc (UMNT mp) w1 of
                      (r, w2) \<Rightarrow>
                        (case nfsclient s of
                           None \<Rightarrow> Inr (s\<lparr>mountpath := None\<rparr>, w2)
                         | Some a \<Rightarrow>
                             if live (nfsclient s) s
                             then Inr (s\<lparr>mountpath := None,
                                         clients := removeAll a (clients s)\<rparr>, w2)
                             else Inl UNDEFINED))
              else Inl UNDEFINED))"

text \<open>
  \<open>close_mount\<close>. \<open>printf\<close> is given \<open>remotehost\<close> for a \<open>%s\<close>, so that it must
  not be NULL when \<open>verbose\<close> is set.
\<close>

definition close_mount :: "session \<Rightarrow> world \<Rightarrow> fault + session \<times> world" where
  "close_mount s w =
     (case (if mountpath s \<noteq> None then close_nfs s w else Inr (s, w)) of
        Inl f \<Rightarrow> Inl f
      | Inr (s1, w1) \<Rightarrow>
          (case (if verbose s1
                 then (case remotehost s1 of
                         None \<Rightarrow> Inl UNDEFINED
                       | Some h \<Rightarrow>
                           Inr (printf_stdout (''Close `'' @ h @ [CHR 0x27, CHR 0x0A]) w1))
                 else Inr w1) of
             Inl f \<Rightarrow> Inl f
           | Inr w2 \<Rightarrow>
               (case mntclient s1 of
                  None \<Rightarrow> Inr (s1\<lparr>remotehost := None\<rparr>, w2)
                | Some a \<Rightarrow>
                    if live (mntclient s1) s1
                    then Inr (s1\<lparr>remotehost := None,
                                 clients := removeAll a (clients s1)\<rparr>, w2)
                    else Inl UNDEFINED)))"

definition do_umount :: "cptr list \<Rightarrow> session \<Rightarrow> world \<Rightarrow> fault + session \<times> world" where
  "do_umount argv s w =
     (if length argv \<noteq> 1 then Inr (s, fprintf_stderr ''Usage: umount'' w)
      else if mountpath s = None
      then Inr (s, fprintf_stderr ''umount: no remote file system mounted'' w)
      else close_nfs s w)"

text \<open>
  The function \<open>setup\<close>: a socket on a privileged port, connected to the port that the
  port mapper names (0 when it names none). Descriptors are not kept track of, so \<open>close\<close> is
  nothing here. \<open>stream\<close> says that the type is SOCK_STREAM.
\<close>

definition stderr_lines :: "net_event list \<Rightarrow> out_event list" where
  "stderr_lines evs = concat (map (\<lambda>e. case e of Stderr l \<Rightarrow> [Stderr_line l] | _ \<Rightarrow> []) evs)"

definition setup_sock :: "bool \<Rightarrow> session \<Rightarrow> world \<Rightarrow> fault + int \<times> world" where
  "setup_sock stream s w =
     (case privileged (net w) (verbose s) of
        None \<Rightarrow> Inl DIVERGES
      | Some (sock, evs) \<Rightarrow>
          (let w1 = w\<lparr>out := out w @ stderr_lines evs\<rparr> in
           if sock \<noteq> RPC_ANYSOCK
           then (case rpc (PMAP_GETPORT (if stream then IPPROTO_TCP else IPPROTO_UDP)) w1 of
                   (r, w2) \<Rightarrow>
                     (case rpc (CONNECT (case r of PORT p \<Rightarrow> p | _ \<Rightarrow> 0)) w2 of
                        (CONNECTED, w3) \<Rightarrow> Inr (sock, w3)
                      | (_, w3) \<Rightarrow> Inr (RPC_ANYSOCK, perror ''connect'' w3)))
           else Inr (sock, w1)))"

text \<open>
  \<open>clnttcp_create\<close> and \<open>clntudp_create\<close>: the address of the new \<open>CLIENT\<close>, or
  NULL. \<open>new_nfsclient\<close> is the assignment of the result to \<open>nfsclient\<close>, with the new
  object among the live ones.
\<close>

definition clnt_create :: "rpc_call \<Rightarrow> world \<Rightarrow> nat option \<times> world" where
  "clnt_create c w =
     (case rpc c w of
        (CLNT_AT a, w1) \<Rightarrow> (Some a, w1)
      | (_, w1) \<Rightarrow> (None, w1))"

definition new_nfsclient :: "nat option \<Rightarrow> session \<Rightarrow> session" where
  "new_nfsclient c s =
     s\<lparr>nfsclient := c, clients := (case c of None \<Rightarrow> clients s | Some a \<Rightarrow> a # clients s)\<rparr>"

definition NFS_OVER_UDP :: int where "NFS_OVER_UDP = 1"
definition NFS_OVER_TCP :: int where "NFS_OVER_TCP = 2"
definition TRANSPORT_MASK :: int where "TRANSPORT_MASK = 3"
definition THRU_PORTMAP :: int where "THRU_PORTMAP = 8"
definition MOUNT_UMOUNT :: int where "MOUNT_UMOUNT = 16"

text \<open>
  The \<open>switch\<close> of \<open>open_nfs\<close>. The result is \<open>None\<close> when the function returned 0
  from within it, and the value of \<open>proto\<close> otherwise.
\<close>

definition open_nfs_forced ::
  "bool \<Rightarrow> session \<Rightarrow> world \<Rightarrow> fault + ipproto option \<times> session \<times> world" where
  "open_nfs_forced stream s w =
     (case setup_sock stream s w of
        Inl f \<Rightarrow> Inl f
      | Inr (sock, w1) \<Rightarrow>
          (case clnt_create (if stream then CLNTTCP_CREATE else CLNTUDP_CREATE) w1 of
             (None, w2) \<Rightarrow>
               Inr (None, new_nfsclient None s,
                  clnt_pcreateerror
                    (if stream then ''nfs clnttcp_create'' else ''nfs clntudp_create'') w2)
           | (Some a, w2) \<Rightarrow>
               Inr (Some (if stream then IPPROTO_TCP else IPPROTO_UDP),
                  new_nfsclient (Some a) s, w2)))"

definition open_nfs_switch ::
  "int \<Rightarrow> session \<Rightarrow> world \<Rightarrow> fault + ipproto option \<times> session \<times> world" where
  "open_nfs_switch flags s w =
     (if flags AND TRANSPORT_MASK = NFS_OVER_UDP then open_nfs_forced False s w
      else if flags AND TRANSPORT_MASK = NFS_OVER_TCP then open_nfs_forced True s w
      else
        (case setup_sock True s w of
           Inl f \<Rightarrow> Inl f
         | Inr (sock, w1) \<Rightarrow>
             (case clnt_create CLNTTCP_CREATE w1 of
                (Some a, w2) \<Rightarrow> Inr (Some IPPROTO_TCP, new_nfsclient (Some a) s, w2)
              | (None, w2) \<Rightarrow> open_nfs_forced False (new_nfsclient None s) w2)))"

text \<open>
  \<open>open_nfs\<close> after the \<open>switch\<close>. \<open>clnt_control\<close> is called for \<open>nfsclient\<close> and
  then for \<open>mntclient\<close>; \<open>mount3_mnt_3\<close> and \<open>mount3_umnt_3\<close> go through
  \<open>mntclient\<close>, \<open>pmap_mnt\<close> does not. \<open>mountpoint\<close> takes what the mount call
  returned, NULL too. The \<open>resok\<close> arm of an FSINFO result stands for its field
  \<open>wtmax\<close>. The pieces that \<open>printf\<close> writes at the end are one event.
\<close>

definition mount_call :: "rpc_call \<Rightarrow> world \<Rightarrow> mountres3 option \<times> world" where
  "mount_call c w =
     (case rpc c w of
        (MOUNTRES3 m, w1) \<Rightarrow> (Some m, w1)
      | (_, w1) \<Rightarrow> (None, w1))"

definition determine_transfersize :: "session \<Rightarrow> world \<Rightarrow> int \<times> world" where
  "determine_transfersize s w =
     (case rpc (FSINFO (nfs_fh3copy (directory_handle s))) w of
        (FSINFO3 res, w1) \<Rightarrow> (if status res \<noteq> NFS3_OK then 8192 else resok res, w1)
      | (_, w1) \<Rightarrow> (8192, w1))"

definition open_nfs_done ::
  "string \<Rightarrow> int \<Rightarrow> int \<Rightarrow> ipproto \<Rightarrow> session \<Rightarrow> world \<Rightarrow> int \<times> session \<times> world"
where
  "open_nfs_done mp port flags proto s w =
     (case alloc w of
        (False, w1) \<Rightarrow>
          (0, s\<lparr>mountpath := None\<rparr>,
           fprintf_stderr ''internal error: no more core for mountpath'' w1)
      | (True, w1) \<Rightarrow>
          (case determine_transfersize s w1 of
             (tsize, w2) \<Rightarrow>
               (1, s\<lparr>mountpath := Some mp, transfersize := tsize\<rparr>,
                if verbose s
                then printf_stdout
                       (''Mount `'' @ mp @ [CHR 0x27]
                        @ (if flags AND MOUNT_UMOUNT \<noteq> 0 then '' (unmount)'' else [])
                        @ (if proto = IPPROTO_TCP then '', TCP, '' else '', UDP, '')
                        @ (if port \<noteq> 0 then ''port '' @ show_int port @ '', '' else [])
                        @ ''transfer size '' @ show_int tsize @ '' bytes.'' @ [CHR 0x0A]) w2
                else w2)))"

definition open_nfs_mount ::
  "string option \<Rightarrow> int \<Rightarrow> int \<Rightarrow> ipproto \<Rightarrow> session \<Rightarrow> world
     \<Rightarrow> fault + int \<times> session \<times> world" where
  "open_nfs_mount path port flags proto s w =
     (if live (nfsclient s) s \<and> live (mntclient s) s
      then
        (case create_authenticator s w of
           Inl f \<Rightarrow> Inl f
         | Inr w1 \<Rightarrow>
             (case path of
                None \<Rightarrow> Inr (open_nfs_done ''<handle>'' port flags proto s w1)
              | Some pa \<Rightarrow>
                  (case (if flags AND THRU_PORTMAP \<noteq> 0
                         then (case mount_call (PMAP_MNT pa) w1 of
                                 (None, w2) \<Rightarrow> (None, clnt_perrno w2)
                               | (Some m, w2) \<Rightarrow> (Some m, w2))
                         else (case mount_call (MNT pa) w1 of
                                 (None, w2) \<Rightarrow> (None, clnt_perror ''mount3_mnt'' w2)
                               | (Some m, w2) \<Rightarrow> (Some m, w2))) of
                     (None, w2) \<Rightarrow> Inr (0, s\<lparr>mountpoint := None\<rparr>, w2)
                   | (Some m, w2) \<Rightarrow>
                       if fhs_status m \<noteq> MNT3_OK
                       then Inr (0, s\<lparr>mountpoint := Some m\<rparr>,
                              fprintf_stderr (''Mount failed: '' @ nfs_error (fhs_status m)) w2)
                       else
                         Inr (open_nfs_done pa port flags proto
                                (s\<lparr>mountpoint := Some m,
                                   directory_handle :=
                                     fhandle3_to_nfs_fh3 (mountinfo_fhandle m)\<rparr>)
                                (if flags AND MOUNT_UMOUNT \<noteq> 0
                                 then snd (rpc (UMNT pa) w2) else w2)))))
      else Inl UNDEFINED)"

definition open_nfs ::
  "string option \<Rightarrow> int \<Rightarrow> int \<Rightarrow> session \<Rightarrow> world \<Rightarrow> fault + int \<times> session \<times> world" where
  "open_nfs path port flags s w =
     (case (if mountpath s \<noteq> None then close_nfs s w else Inr (s, w)) of
        Inl f \<Rightarrow> Inl f
      | Inr (s1, w1) \<Rightarrow>
          (case open_nfs_switch flags s1 w1 of
             Inl f \<Rightarrow> Inl f
           | Inr (None, s2, w2) \<Rightarrow> Inr (0, s2, w2)
           | Inr (Some proto, s2, w2) \<Rightarrow> open_nfs_mount path port flags proto s2 w2))"

text \<open>
  The options of \<open>do_mount\<close>: the \<open>for\<close> loop over the letters of one word, where
  \<open>p\<close> is the pointer into the word and \<open>argv\<close> the argument vector as it stands, and
  the \<open>while\<close> loop over the words that begin with \<open>'-'\<close>. The result is \<open>None\<close>
  for \<open>goto usage\<close>, and otherwise \<open>argv\<close>, \<open>port\<close> and \<open>flags\<close> as the loop
  leaves them.
\<close>

fun mount_opts ::
  "cptr \<Rightarrow> cptr list \<Rightarrow> int \<Rightarrow> int \<Rightarrow> fault + (cptr list \<times> int \<times> int) option" where
  "mount_opts [] argv port flags = Inl UNDEFINED"
| "mount_opts (c # p) argv port flags =
     (if c = NUL then Inr (Some (argv, port, flags))
      else if c = CHR ''u'' then mount_opts p argv port (flags OR MOUNT_UMOUNT)
      else if c = CHR ''p'' then mount_opts p argv port (flags OR THRU_PORTMAP)
      else if c = CHR ''P''
      then (if length argv \<le> 1 then Inr None
            else mount_opts p (tl argv) (atoi (argv ! 1)) flags)
      else if c = CHR ''T'' then mount_opts p argv port (flags OR NFS_OVER_TCP)
      else if c = CHR ''U'' then mount_opts p argv port (flags OR NFS_OVER_UDP)
      else Inr None)"

function mount_args ::
  "cptr list \<Rightarrow> int \<Rightarrow> int \<Rightarrow> fault + (cptr list \<times> int \<times> int) option" where
  "mount_args argv port flags =
     (case argv of
        [] \<Rightarrow> Inr (Some (argv, port, flags))
      | a # as \<Rightarrow>
          (case a of
             [] \<Rightarrow> Inl UNDEFINED
           | c # p \<Rightarrow>
               if c = CHR ''-''
               then (case mount_opts p argv port flags of
                       Inl f \<Rightarrow> Inl f
                     | Inr None \<Rightarrow> Inr None
                     | Inr (Some (argv1, port1, flags1)) \<Rightarrow> mount_args (tl argv1) port1 flags1)
               else Inr (Some (argv, port, flags))))"
  by pat_completeness auto
termination
proof (relation "measure (\<lambda>(argv, port, flags). length argv)")
  show "wf (measure (\<lambda>(argv, port, flags). length argv))" by simp
next
  fix argv :: "cptr list" and port flags :: int and a as c p x y argv1 z port1 flags1
  assume argv: "argv = a # as" and mo: "mount_opts p argv port flags = Inr x"
    and x: "x = Some y" "(argv1, z) = y" "(port1, flags1) = z"
  have keep: "\<And>q av po fl r. mount_opts q av po fl = Inr (Some r) \<Longrightarrow> av \<noteq> [] \<Longrightarrow>
      fst r \<noteq> [] \<and> length (fst r) \<le> length av"
  proof -
    fix q av po fl r
    show "mount_opts q av po fl = Inr (Some r) \<Longrightarrow> av \<noteq> [] \<Longrightarrow>
      fst r \<noteq> [] \<and> length (fst r) \<le> length av"
    proof (induction q arbitrary: av po fl)
      case Nil
      then show ?case by simp
    next
      case (Cons c q)
      show ?case
      proof (cases "c = CHR ''P'' \<and> c \<noteq> NUL \<and> 1 < length av")
        case True
        then have "mount_opts q (tl av) (atoi (av ! 1)) fl = Inr (Some r)"
          using Cons.prems(1) by (simp add: NUL_def)
        moreover have "tl av \<noteq> []" using True by (cases av) auto
        ultimately have "fst r \<noteq> [] \<and> length (fst r) \<le> length (tl av)" by (rule Cons.IH)
        then show ?thesis by (cases av) auto
      next
        case False
        then show ?thesis using Cons.prems Cons.IH [of av]
          by (auto simp: NUL_def split: if_splits)
      qed
    qed
  qed
  have "argv1 \<noteq> [] \<and> length argv1 \<le> length argv"
    using keep [of p argv port flags y] mo x argv by (cases y) auto
  then have "length (tl argv1) < length argv" by (cases argv1) auto
  then show "((tl argv1, port1, flags1), argv, port, flags)
      \<in> measure (\<lambda>(argv, port, flags). length argv)" by simp
qed

declare mount_args.simps [simp del]

text \<open>\<open>do_mount\<close>, after \<open>argv++; argc--\<close> has stepped over the command word.\<close>

definition do_mount :: "cptr list \<Rightarrow> session \<Rightarrow> world \<Rightarrow> fault + session \<times> world" where
  "do_mount argv s w =
     (case argv of
        [] \<Rightarrow> Inl UNDEFINED
      | cmd # args \<Rightarrow>
          (case mount_args args 0 0 of
             Inl f \<Rightarrow> Inl f
           | Inr None \<Rightarrow> Inr (s, fprintf_stderr ''Usage: mount [-upTU] [-P port] <path>'' w)
           | Inr (Some (argv1, port, flags)) \<Rightarrow>
               if length argv1 \<noteq> 1
               then Inr (s, fprintf_stderr ''Usage: mount [-upTU] [-P port] <path>'' w)
               else if remotehost s = None
               then Inr (s, fprintf_stderr ''mount: no host specified'' w)
               else (case open_nfs (Some (str_of (hd argv1))) port flags s w of
                       Inl f \<Rightarrow> Inl f
                     | Inr (ret, s1, w1) \<Rightarrow> Inr (s1, w1))))"

text \<open>
  For the statements about the channels. The two invariants in the words of the
  specification: the session has a MOUNT channel, \<open>mntclient\<close> pointing to a live client,
  exactly when \<open>remotehost\<close> is not NULL, and an NFS channel, \<open>nfsclient\<close> pointing to
  a live client, exactly when \<open>mountpath\<close> is not NULL. And the calls of a log that
  create a client, with their replies.
\<close>

definition session_inv :: "session \<Rightarrow> bool" where
  "session_inv s =
     (live (mntclient s) s = (remotehost s \<noteq> None)
      \<and> live (nfsclient s) s = (mountpath s \<noteq> None))"

definition is_create :: "rpc_call \<Rightarrow> bool" where
  "is_create c = (case c of CLNTTCP_CREATE \<Rightarrow> True | CLNTUDP_CREATE \<Rightarrow> True | _ \<Rightarrow> False)"

definition creates :: "(rpc_call \<times> rpc_reply) list \<Rightarrow> (rpc_call \<times> rpc_reply) list" where
  "creates l = filter (\<lambda>e. is_create (fst e)) l"

definition is_client :: "rpc_reply \<Rightarrow> bool" where
  "is_client r = (case r of CLNT_AT a \<Rightarrow> True | _ \<Rightarrow> False)"

text \<open>
  A session after \<open>host server\<close>: the channel to the mount daemon is open and nothing
  is mounted. And the result of a mount call, with its status and file handle.
\<close>

definition session_hosted :: session where
  "session_hosted =
     \<lparr>verbose = False, authtype = AUTH_UNIX, uid = - 2, gid = - 2,
      mountpath = None, remotehost = Some ''server'',
      mntclient = Some 1, nfsclient = None,
      mountpoint = None,
      directory_handle = \<lparr>data_len = 0, data_val = []\<rparr>, transfersize = 0, clients = [1]\<rparr>"

definition mount_reply :: "int \<Rightarrow> string \<Rightarrow> rpc_reply" where
  "mount_reply st h =
     MOUNTRES3 \<lparr>fhs_status = st,
       mountinfo_fhandle = \<lparr>fhandle3_len = length h, fhandle3_val = h\<rparr>\<rparr>"


text \<open>
  Two worlds between which the program has made no call that creates a client.
\<close>

definition quiet :: "world \<Rightarrow> world \<Rightarrow> bool" where
  "quiet w w' = (\<exists>new. log w' = log w @ new \<and> creates new = [])"

section \<open>Theorems\<close>

subsection \<open>Status messages\<close>

lemma nfs_error_unlisted:
  "stat \<notin> set nfs_error_cases \<Longrightarrow> nfs_error stat = ''UKNOWN NFS ERROR''"
  by (simp add: nfs_error_def nfs_error_cases_def)

text \<open>
  C9. The claim has every status outside the table rendered as the string
  "UNKNOWN NFS ERROR". The \<open>default\<close> branch of \<open>nfs_error\<close> returns a different
  string, "UKNOWN NFS ERROR": so at the status 10009, which no \<open>case\<close> lists, and also at
  NFS3ERR_XDEV and NFS3ERR_INVAL, two codes of the protocol that the \<open>switch\<close> has no
  \<open>case\<close> for.
\<close>

theorem nfs_error_default_text:
  "nfs_error 10009 = ''UKNOWN NFS ERROR'' \<and> nfs_error 10009 \<noteq> ''UNKNOWN NFS ERROR''
   \<and> nfs_error NFS3ERR_XDEV = ''UKNOWN NFS ERROR''
   \<and> nfs_error NFS3ERR_INVAL = ''UKNOWN NFS ERROR''"
  by (simp add: nfs_error_def nfsstat3_defs)

subsection \<open>Shell patterns\<close>

text \<open>
  C4. The matcher accepts "foo.txt" for the pattern "*.txt", rejects ".bashrc" for "*",
  accepts ".bashrc" for ".*", accepts "a" for "[abc]", rejects "d" for "[a-c]", and
  with no pattern at all it accepts every name.
\<close>

theorem match_examples:
  "match (cstr ''foo.txt'') [cstr ''*.txt''] = Some True
   \<and> match (cstr ''.bashrc'') [cstr ''*''] = Some False
   \<and> match (cstr ''.bashrc'') [cstr ''.*''] = Some True
   \<and> match (cstr ''a'') [cstr ''[abc]''] = Some True
   \<and> match (cstr ''d'') [cstr ''[a-c]''] = Some False
   \<and> (\<forall>name. match name [] = Some True)"
  by (simp add: match_def matchpattern_def cstr_def NUL_def char_val_def scc_of_def)

subsection \<open>Privileged ports\<close>

lemma probes_step:
  "p \<le> lport \<Longrightarrow>
   probes env p lport = Bind lport (bind_res env lport) # probes env p (lport - 1)"
  by (simp add: probes_def upto_rec2)

lemma probes_empty: "lport < p \<Longrightarrow> probes env p lport = []"
  by (simp add: probes_def)

lemma probes_ports: "Bind q r \<in> set (probes env p lport) \<Longrightarrow> p \<le> q \<and> q \<le> lport"
  by (auto simp: probes_def)

text \<open>Ports that are in use are passed over, one \<open>bind\<close> each, down to \<open>p\<close>.\<close>

lemma privileged_loop_skip:
  assumes "\<forall>q. p < q \<and> q \<le> lport \<longrightarrow> in_use (bind_res env q)"
    and "512 < p" and "p \<le> lport" and "lport < 65536"
  shows "privileged_loop env v s lport evs =
         privileged_loop env v s p (evs @ probes env (p + 1) lport)"
  using assms
proof (induction "nat (lport - p)" arbitrary: lport evs)
  case 0
  then have "lport = p" by simp
  then show ?case by (simp add: probes_empty)
next
  case (Suc k)
  then have lt: "p < lport" by linarith
  with Suc.prems have iu: "in_use (bind_res env lport)" by simp
  have m: "lport mod 65536 = lport" using Suc.prems lt by simp
  have ne: "lport - 1 \<noteq> IPPORT_RESERVED div 2"
    using Suc.prems lt by (simp add: IPPORT_RESERVED_def)
  have step: "privileged_loop env v s lport evs =
      privileged_loop env v s (lport - 1) (evs @ [Bind lport (bind_res env lport)])"
    using iu ne m
    by (subst privileged_loop.simps) (auto simp: in_use_def)
  have ih: "privileged_loop env v s (lport - 1) (evs @ [Bind lport (bind_res env lport)]) =
      privileged_loop env v s p
        ((evs @ [Bind lport (bind_res env lport)]) @ probes env (p + 1) (lport - 1))"
    using Suc.hyps(2) Suc.prems lt by (intro Suc.hyps(1)) auto
  show ?case using step ih lt by (simp add: probes_step [of "p + 1" lport])
qed

lemma privileged_loop_bound:
  assumes "bind_res env p = None" and "0 \<le> p" and "p < 65536"
  shows "privileged_loop env v s p evs =
         Some (s, evs @ [Bind p None] @
                 (if v then [Stderr (''Using a privileged port ('' @ show_int p @ '')'')]
                  else []))"
  using assms by (subst privileged_loop.simps) simp

lemma privileged_loop_abort:
  assumes "bind_res env p = Some e" and "\<not> in_use (Some e)" and "0 \<le> p" and "p < 65536"
  shows "privileged_loop env v s p evs = Some (RPC_ANYSOCK, evs @ [Bind p (Some e), Close s])"
  using assms by (subst privileged_loop.simps) (simp add: in_use_def)

lemma privileged_loop_exhausted:
  assumes "in_use (bind_res env 513)"
  shows "privileged_loop env v s 513 evs =
         Some (RPC_ANYSOCK, evs @ [Bind 513 (bind_res env 513),
                 Stderr ''privileged socket: All ports in use'', Close s])"
  using assms by (subst privileged_loop.simps) (auto simp: in_use_def IPPORT_RESERVED_def)

lemma privileged_start:
  "0 \<le> socket_res env \<Longrightarrow>
   privileged env v = privileged_loop env v (socket_res env) 1023 []"
  by (simp add: privileged_def IPPORT_RESERVED_def Let_def)

text \<open>
  C3, as amended. \<open>privileged\<close> returns in every case. When no socket can be created it
  fails at once. Otherwise it binds to the ports 1023, 1022, ... in turn, going on to the
  next lower port after EADDRINUSE or EADDRNOTAVAIL. At the first port \<open>p\<close> of
  513..1023 whose \<open>bind\<close> answers otherwise it stops: with the socket when the \<open>bind\<close>
  succeeded, with RPC_ANYSOCK and the socket closed when it failed with another error.
  When every port of 513..1023 is in use it writes "privileged socket: All ports in use",
  closes the socket and returns RPC_ANYSOCK. Port 512 is not tried.
\<close>

theorem privileged_descending_probe:
  "(socket_res env < 0 \<longrightarrow> privileged env v = Some (RPC_ANYSOCK, []))
   \<and> (0 \<le> socket_res env \<and> 513 \<le> p \<and> p \<le> 1023
        \<and> (\<forall>q. p < q \<and> q \<le> 1023 \<longrightarrow> in_use (bind_res env q))
      \<longrightarrow> (bind_res env p = None \<longrightarrow>
             privileged env v =
               Some (socket_res env, probes env p 1023 @
                 (if v then [Stderr (''Using a privileged port ('' @ show_int p @ '')'')]
                  else [])))
        \<and> (\<not> in_use (bind_res env p) \<and> bind_res env p \<noteq> None \<longrightarrow>
             privileged env v =
               Some (RPC_ANYSOCK, probes env p 1023 @ [Close (socket_res env)]))
        \<and> (in_use (bind_res env p) \<and> p = 513 \<longrightarrow>
             privileged env v =
               Some (RPC_ANYSOCK, probes env 513 1023 @
                 [Stderr ''privileged socket: All ports in use'', Close (socket_res env)])))"
proof (intro conjI impI)
  assume "socket_res env < 0"
  then show "privileged env v = Some (RPC_ANYSOCK, [])"
    by (simp add: privileged_def Let_def)
next
  assume a: "0 \<le> socket_res env \<and> 513 \<le> p \<and> p \<le> 1023
        \<and> (\<forall>q. p < q \<and> q \<le> 1023 \<longrightarrow> in_use (bind_res env q))"
  then have skip: "privileged env v =
      privileged_loop env v (socket_res env) p (probes env (p + 1) 1023)"
    using privileged_loop_skip [of p 1023 env v "socket_res env" "[]"]
    by (simp add: privileged_start)
  have split: "probes env p 1023 = probes env (p + 1) 1023 @ [Bind p (bind_res env p)]"
    using a by (simp add: probes_def upto_rec1 [of p 1023])
  {
    assume "bind_res env p = None"
    then show "privileged env v =
               Some (socket_res env, probes env p 1023 @
                 (if v then [Stderr (''Using a privileged port ('' @ show_int p @ '')'')]
                  else []))"
      using a skip split by (simp add: privileged_loop_bound)
  next
    assume b: "\<not> in_use (bind_res env p) \<and> bind_res env p \<noteq> None"
    then obtain e where e: "bind_res env p = Some e" by auto
    with b have "\<not> in_use (Some e)" by simp
    then show "privileged env v =
               Some (RPC_ANYSOCK, probes env p 1023 @ [Close (socket_res env)])"
      using a skip split e by (simp add: privileged_loop_abort)
  next
    assume c: "in_use (bind_res env p) \<and> p = 513"
    then have "p = 513" and "in_use (bind_res env 513)" by auto
    then show "privileged env v =
               Some (RPC_ANYSOCK, probes env 513 1023 @
                 [Stderr ''privileged socket: All ports in use'', Close (socket_res env)])"
      using a skip split by (simp add: privileged_loop_exhausted)
  }
qed

text \<open>
  The theorem at work: the ports above 1000 are in use and port 1000 is free, so the
  socket comes back bound to port 1000 after 24 \<open>bind\<close> calls.
\<close>

theorem privileged_descending_probe_witness:
  "privileged \<lparr>socket_res = 3, bind_res = (\<lambda>q. if 1000 < q then Some EADDRINUSE else None)\<rparr>
     True
   = Some (3, probes \<lparr>socket_res = 3,
                      bind_res = (\<lambda>q. if 1000 < q then Some EADDRINUSE else None)\<rparr> 1000 1023
              @ [Stderr ''Using a privileged port (1000)''])"
  using privileged_descending_probe
    [of "\<lparr>socket_res = 3, bind_res = (\<lambda>q. if 1000 < q then Some EADDRINUSE else None)\<rparr>"
        True 1000]
  by (simp add: in_use_def show_int_def digit_char_def)

text \<open>
  Against C3 as stated: port 512 lies in the range [512, 1023] and is free, every port
  above it is in use, and \<open>privileged\<close> fails with "All ports in use" without a
  \<open>bind\<close> to port 512.
\<close>

theorem privileged_port_512_counterexample:
  "bind_res \<lparr>socket_res = 3, bind_res = (\<lambda>q. if q = 512 then None else Some EADDRINUSE)\<rparr> 512
     = None
   \<and> privileged \<lparr>socket_res = 3,
                  bind_res = (\<lambda>q. if q = 512 then None else Some EADDRINUSE)\<rparr> False
     = Some (RPC_ANYSOCK,
         probes \<lparr>socket_res = 3,
                 bind_res = (\<lambda>q. if q = 512 then None else Some EADDRINUSE)\<rparr> 513 1023
         @ [Stderr ''privileged socket: All ports in use'', Close 3])
   \<and> Bind 512 None \<notin> set (probes \<lparr>socket_res = 3,
         bind_res = (\<lambda>q. if q = 512 then None else Some EADDRINUSE)\<rparr> 513 1023)"
proof -
  let ?env = "\<lparr>socket_res = 3, bind_res = (\<lambda>q. if q = 512 then None else Some EADDRINUSE)\<rparr>"
  have "privileged ?env False = privileged_loop ?env False 3 513 (probes ?env 514 1023)"
    using privileged_loop_skip [of 513 1023 ?env False 3 "[]"]
    by (simp add: privileged_start in_use_def)
  moreover have "probes ?env 513 1023 = probes ?env 514 1023 @ [Bind 513 (bind_res ?env 513)]"
    by (simp add: probes_def upto_rec1 [of 513 1023])
  moreover have "Bind 512 None \<notin> set (probes ?env 513 1023)"
    using probes_ports [of 512 None ?env 513 1023] by auto
  ultimately show ?thesis
    using privileged_loop_exhausted [of ?env False 3] by (simp add: in_use_def)
qed

subsection \<open>cd\<close>

text \<open>The two tests on a byte of the path.\<close>

abbreviation (input) "sep \<equiv> (\<lambda>c. c \<noteq> CHR ''/'' \<and> c \<noteq> NUL)"
abbreviation (input) "nsl \<equiv> (\<lambda>c. c \<noteq> CHR ''/'')"

lemma cd_walk_Nil: "cd_walk [] h w = Inl UNDEFINED"
  by (subst cd_walk.simps) simp

lemma cd_walk_NUL: "cd_walk (NUL # cs) h w = Inr (Some h, w)"
  by (subst cd_walk.simps) simp

lemma cd_walk_off:
  assumes "dropWhile sep p = []" and "hd p \<noteq> NUL"
  shows "cd_walk p h w = Inl UNDEFINED"
proof (cases p)
  case Nil
  then show ?thesis by (subst cd_walk.simps) simp
next
  case (Cons c cs)
  with assms have "c \<noteq> NUL" by simp
  show ?thesis
    apply (subst cd_walk.simps)
    apply (simp only: Cons list.case \<open>c \<noteq> NUL\<close> if_False Let_def)
    apply (simp only: Cons [symmetric] assms(1) list.case)
    done
qed

lemma cd_walk_step:
  assumes "dropWhile sep p = d # p'" and "hd p \<noteq> NUL"
  shows "cd_walk p h w =
     (case nfs3_lookup_3 \<lparr>what = \<lparr>dir = nfs_fh3copy h, name = takeWhile sep p\<rparr>\<rparr> w of
        (None, w') \<Rightarrow> Inr (None, clnt_perror ''nfs3_lookup'' w')
      | (Some res, w') \<Rightarrow>
          if status res \<noteq> NFS3_OK
          then Inr (None, fprintf_stderr (takeWhile sep p @ '': '' @ nfs_error (status res)) w')
          else if attr_type (attributes (obj_attributes (resok res))) \<noteq> NF3DIR
          then Inr (None, fprintf_stderr (takeWhile sep p @ '': is not a directory'') w')
          else cd_walk p' (nfs_fh3copy (object (resok res))) w')"
proof (cases p)
  case Nil
  with assms show ?thesis by simp
next
  case (Cons c cs)
  with assms have "c \<noteq> NUL" by simp
  show ?thesis
    apply (subst cd_walk.simps)
    apply (simp only: Cons list.case \<open>c \<noteq> NUL\<close> if_False Let_def)
    apply (simp only: Cons [symmetric] assms(1) list.case)
    done
qed

lemma nfs_fh3copy_id: "nfs_fh3copy h = h"
  by (simp add: nfs_fh3copy_def)

lemma nfs3_lookup_3_Some:
  "nfs3_lookup_3 args w = (Some res, w') \<Longrightarrow>
   replies w = LOOKUP3 res # replies w' \<and> log w' = log w @ [(LOOKUP args, LOOKUP3 res)]
   \<and> out w' = out w"
  by (cases "replies w"; cases "hd (replies w)") (auto simp: nfs3_lookup_3_def rpc_def)

lemma nfs3_lookup_3_None:
  "nfs3_lookup_3 args w = (None, w') \<Longrightarrow>
   (\<exists>r. log w' = log w @ [(LOOKUP args, r)] \<and> \<not> lookup_dir_ok r
      \<and> cd_report c r = Clnt_perror ''nfs3_lookup'') \<and> out w' = out w"
  by (cases "replies w"; cases "hd (replies w)")
     (auto simp: nfs3_lookup_3_def rpc_def lookup_dir_ok_def cd_report_def)

lemma cd_report_LOOKUP3:
  "status res \<noteq> NFS3_OK \<Longrightarrow>
     cd_report c (LOOKUP3 res) = Stderr_line (c @ '': '' @ nfs_error (status res))"
  "status res = NFS3_OK \<Longrightarrow>
     cd_report c (LOOKUP3 res) = Stderr_line (c @ '': is not a directory'')"
  by (simp_all add: cd_report_def)

lemma lookup_name_LOOKUP [simp]: "lookup_name (LOOKUP \<lparr>what = \<lparr>dir = h, name = c\<rparr>\<rparr>) = c"
  by (simp add: lookup_name_def)

lemma split_slash_ne: "split_slash s \<noteq> []"
  by (subst split_slash.simps) (simp split: list.splits)

lemma walk_pieces_Nil: "walk_pieces [] = []"
  by (simp add: walk_pieces_def split_slash.simps [of "[]"])

lemma walk_pieces_single:
  assumes "CHR ''/'' \<notin> set s" and "s \<noteq> []"
  shows "walk_pieces s = [s]"
proof -
  have dw: "dropWhile nsl s = []" using assms by auto
  have "split_slash s = [s]" by (subst split_slash.simps) (simp only: dw list.case)
  then show ?thesis using assms by (simp add: walk_pieces_def)
qed

lemma walk_pieces_slash:
  assumes "dropWhile nsl s = x # r"
  shows "walk_pieces s = takeWhile nsl s # walk_pieces r"
proof -
  have "split_slash s = takeWhile nsl s # split_slash r"
    by (subst split_slash.simps) (simp only: assms list.case)
  then show ?thesis using split_slash_ne [of r]
    by (simp add: walk_pieces_def Let_def)
qed

lemma takeWhile_mem:
  assumes "NUL \<notin> set s"
  shows "takeWhile sep (s @ NUL # t) = takeWhile nsl s"
  using assms by (induction s) auto

lemma dropWhile_mem:
  assumes "NUL \<notin> set s"
  shows "dropWhile sep (s @ NUL # t) =
         (if CHR ''/'' \<in> set s then dropWhile nsl s @ NUL # t else NUL # t)"
  using assms by (induction s) auto

lemma cd_walk_resolve:
  assumes "NUL \<notin> set path"
    and "resolve h (walk_pieces path) (replies w) = (new, res)"
  shows "\<exists>w'. cd_walk (path @ NUL # NUL # rest) h w = Inr (res, w')
           \<and> log w' = log w @ new \<and> replies w' = drop (length new) (replies w)
           \<and> (case res of None \<Rightarrow> new \<noteq> [] \<and> out w' = out w @ [cd_failure new]
               | Some _ \<Rightarrow> out w' = out w)"
  using assms
proof (induction "length path" arbitrary: path h w new res rule: less_induct)
  case less
  let ?p = "path @ NUL # NUL # rest"
  show ?case
  proof (cases "path = []")
    case True
    with less.prems show ?thesis by (auto simp: walk_pieces_Nil cd_walk_NUL)
  next
    case False
    then have hd: "hd ?p \<noteq> NUL" using less.prems(1) by (cases path) auto
    have tw: "takeWhile sep ?p = takeWhile nsl path" by (rule takeWhile_mem [OF less.prems(1)])
    let ?c = "takeWhile nsl path"
    let ?args = "\<lparr>what = \<lparr>dir = nfs_fh3copy h, name = ?c\<rparr>\<rparr>"
    obtain p' cs where dw: "dropWhile sep ?p = (if CHR ''/'' \<in> set path then CHR ''/'' else NUL) # p'"
      and pc: "walk_pieces path = ?c # cs"
      and nxt: "(CHR ''/'' \<in> set path \<and> (\<exists>r. p' = r @ NUL # NUL # rest \<and> cs = walk_pieces r
                  \<and> length r < length path \<and> NUL \<notin> set r))
               \<or> (CHR ''/'' \<notin> set path \<and> p' = NUL # rest \<and> cs = [])"
    proof (cases "CHR ''/'' \<in> set path")
      case True
      then have ne: "dropWhile nsl path \<noteq> []" by (auto simp: dropWhile_eq_Nil_conv)
      then have "\<not> nsl (hd (dropWhile nsl path))" by (rule hd_dropWhile)
      with ne obtain r where r: "dropWhile nsl path = CHR ''/'' # r"
        by (cases "dropWhile nsl path") auto
      have "length r < length (dropWhile nsl path)" using r by simp
      also have "\<dots> \<le> length path" by (rule length_dropWhile_le)
      finally have len: "length r < length path" .
      have "set r \<subseteq> set path" using set_dropWhileD [of _ nsl path] r by auto
      then have nn: "NUL \<notin> set r" using less.prems(1) by auto
      show ?thesis
        using that [of "r @ NUL # NUL # rest" "walk_pieces r"] True r len nn
          dropWhile_mem [OF less.prems(1), of "NUL # rest"] walk_pieces_slash [OF r]
        by simp
    next
      case nos: False
      have c: "takeWhile nsl path = path" using nos by (auto simp: takeWhile_eq_all_conv)
      have d: "dropWhile sep ?p = NUL # NUL # rest"
        using dropWhile_mem [OF less.prems(1), of "NUL # rest"] nos by simp
      have e: "walk_pieces path = [path]"
        using walk_pieces_single [of path] nos False by simp
      show ?thesis
      proof (rule that [of "NUL # rest" "[]"])
        show "dropWhile sep ?p = (if CHR ''/'' \<in> set path then CHR ''/'' else NUL) # NUL # rest"
          using d nos by simp
        show "walk_pieces path = takeWhile nsl path # []" unfolding c by (rule e)
        show "(CHR ''/'' \<in> set path \<and> (\<exists>r. NUL # rest = r @ NUL # NUL # rest \<and> [] = walk_pieces r
                  \<and> length r < length path \<and> NUL \<notin> set r))
               \<or> (CHR ''/'' \<notin> set path \<and> NUL # rest = NUL # rest \<and> [] = [])"
          using nos by simp
      qed
    qed
    note step = cd_walk_step [OF dw hd, of h w, unfolded tw]
    show ?thesis
    proof (cases "replies w")
      case Nil
      then have lk: "nfs3_lookup_3 ?args w = (None, w\<lparr>log := log w @ [(LOOKUP ?args, RPC_FAILED)]\<rparr>)"
        by (simp add: nfs3_lookup_3_def rpc_def)
      from less.prems(2) Nil pc have "new = [(LOOKUP \<lparr>what = \<lparr>dir = h, name = ?c\<rparr>\<rparr>, RPC_FAILED)]" "res = None"
        by auto
      then show ?thesis unfolding step lk using Nil
        by (simp add: clnt_perror_def nfs_fh3copy_id cd_failure_def cd_report_def)
    next
      case (Cons r rs)
      have rp: "rpc (LOOKUP ?args) w = (r, w\<lparr>replies := rs, log := log w @ [(LOOKUP ?args, r)]\<rparr>)"
        using Cons by (simp add: rpc_def)
      let ?w1 = "w\<lparr>replies := rs, log := log w @ [(LOOKUP ?args, r)]\<rparr>"
      show ?thesis
      proof (cases "lookup_dir_ok r")
        case bad: False
        from less.prems(2) Cons pc bad
        have nr: "new = [(LOOKUP \<lparr>what = \<lparr>dir = h, name = ?c\<rparr>\<rparr>, r)]" "res = None"
          by (cases r; simp)+
        have "cd_walk ?p h w = Inr (None, ?w1\<lparr>out := out ?w1 @ [cd_report ?c r]\<rparr>)"
          unfolding step using bad rp
          by (cases r)
             (auto simp: nfs3_lookup_3_def lookup_dir_ok_def clnt_perror_def fprintf_stderr_def
                cd_report_def)
        then show ?thesis using nr Cons by (simp add: nfs_fh3copy_id cd_failure_def)
      next
        case good: True
        then obtain lres where lres: "r = LOOKUP3 lres" "status lres = NFS3_OK"
          "attr_type (attributes (obj_attributes (resok lres))) = NF3DIR"
          by (cases r) (auto simp: lookup_dir_ok_def)
        obtain l x where rec: "resolve (object (resok lres)) cs rs = (l, x)"
          by (cases "resolve (object (resok lres)) cs rs")
        from less.prems(2) Cons pc good lres rec
        have nr: "new = (LOOKUP \<lparr>what = \<lparr>dir = h, name = ?c\<rparr>\<rparr>, r) # l" "res = x"
          by auto
        have st: "cd_walk ?p h w = cd_walk p' (object (resok lres)) ?w1"
          unfolding step using rp lres by (simp add: nfs3_lookup_3_def nfs_fh3copy_id)
        from nxt show ?thesis
        proof
          assume "CHR ''/'' \<in> set path \<and> (\<exists>r. p' = r @ NUL # NUL # rest \<and> cs = walk_pieces r
                  \<and> length r < length path \<and> NUL \<notin> set r)"
          then obtain q where q: "p' = q @ NUL # NUL # rest" "cs = walk_pieces q"
            "length q < length path" "NUL \<notin> set q" by blast
          have "resolve (object (resok lres)) (walk_pieces q) (replies ?w1) = (l, x)"
            using rec q by simp
          from less.hyps [OF q(3) q(4) this] obtain w' where
            w': "cd_walk (q @ NUL # NUL # rest) (object (resok lres)) ?w1 = Inr (x, w')"
              "log w' = log ?w1 @ l" "replies w' = drop (length l) (replies ?w1)"
              "case x of None \<Rightarrow> l \<noteq> [] \<and> out w' = out ?w1 @ [cd_failure l]
               | Some _ \<Rightarrow> out w' = out ?w1"
            by blast
          then show ?thesis using st q nr Cons
            by (auto simp: nfs_fh3copy_id cd_failure_def split: option.splits)
        next
          assume "CHR ''/'' \<notin> set path \<and> p' = NUL # rest \<and> cs = []"
          then show ?thesis using st nr rec Cons by (auto simp: cd_walk_NUL nfs_fh3copy_id)
        qed
      qed
    qed
  qed
qed

lemma cd_walk_log:
  "cd_walk p h w = Inr (r, w') \<Longrightarrow>
   \<exists>new. log w' = log w @ new \<and>
     (case r of
        None \<Rightarrow> new \<noteq> [] \<and> out w' = out w @ [cd_failure new]
      | Some _ \<Rightarrow> (\<forall>e\<in>set new. lookup_dir_ok (snd e)) \<and> out w' = out w)"
proof (induction p h w rule: cd_walk.induct)
  case (1 p h w)
  show ?case
  proof (cases p)
    case Nil
    with "1.prems" show ?thesis by (simp add: cd_walk_Nil)
  next
    case (Cons c cs)
    show ?thesis
    proof (cases "c = NUL")
      case True
      with Cons "1.prems" show ?thesis by (auto simp: cd_walk_NUL)
    next
      case False
      then have hd: "hd p \<noteq> NUL" using Cons by simp
      show ?thesis
      proof (cases "dropWhile sep p")
        case Nil
        from "1.prems" show ?thesis unfolding cd_walk_off [OF Nil hd] by simp
      next
        case dw: (Cons d p')
        let ?args = "\<lparr>what = \<lparr>dir = nfs_fh3copy h, name = takeWhile sep p\<rparr>\<rparr>"
        note step = cd_walk_step [OF dw hd, of h w]
        obtain r1 w1 where lk: "nfs3_lookup_3 ?args w = (r1, w1)" by (cases "nfs3_lookup_3 ?args w")
        show ?thesis
        proof (cases r1)
          case None
          from "1.prems" have "r = None" "w' = clnt_perror ''nfs3_lookup'' w1"
            unfolding step lk None by simp_all
          then show ?thesis
            using nfs3_lookup_3_None [OF lk [unfolded None], of "takeWhile sep p"]
            by (auto simp: clnt_perror_def cd_failure_def lookup_name_def)
        next
          case (Some res)
          note lkS = nfs3_lookup_3_Some [OF lk [unfolded Some]]
          show ?thesis
          proof (cases "status res \<noteq> NFS3_OK \<or> attr_type (attributes (obj_attributes (resok res))) \<noteq> NF3DIR")
            case True
            from "1.prems" True
            have "r = None" "w' = w1\<lparr>out := out w1 @ [cd_report (takeWhile sep p) (LOOKUP3 res)]\<rparr>"
              unfolding step lk Some
              by (auto simp: fprintf_stderr_def cd_report_def split: if_splits)
            then show ?thesis using lkS by (simp add: cd_failure_def lookup_name_def)
          next
            case ok: False
            from "1.prems" ok
            have rec: "cd_walk p' (nfs_fh3copy (object (resok res))) w1 = Inr (r, w')"
              unfolding step lk Some by simp
            have "\<exists>new. log w' = log w1 @ new \<and>
              (case r of None \<Rightarrow> new \<noteq> [] \<and> out w' = out w1 @ [cd_failure new]
               | Some _ \<Rightarrow> (\<forall>e\<in>set new. lookup_dir_ok (snd e)) \<and> out w' = out w1)"
              using "1.IH" [OF Cons False refl dw lk [symmetric] Some _ _ rec] ok by simp
            then obtain new where new: "log w' = log w1 @ new"
              "case r of None \<Rightarrow> new \<noteq> [] \<and> out w' = out w1 @ [cd_failure new]
               | Some _ \<Rightarrow> (\<forall>e\<in>set new. lookup_dir_ok (snd e)) \<and> out w' = out w1" by blast
            have okr: "lookup_dir_ok (LOOKUP3 res)" using ok by (simp add: lookup_dir_ok_def)
            have "log w' = log w @ ((LOOKUP ?args, LOOKUP3 res) # new)" using new(1) lkS by simp
            moreover have "case r of
                 None \<Rightarrow> (LOOKUP ?args, LOOKUP3 res) # new \<noteq> []
                   \<and> out w' = out w @ [cd_failure ((LOOKUP ?args, LOOKUP3 res) # new)]
               | Some _ \<Rightarrow> (\<forall>e\<in>set ((LOOKUP ?args, LOOKUP3 res) # new). lookup_dir_ok (snd e)) \<and> out w' = out w"
              using new(2) okr lkS by (cases r) (simp_all add: cd_failure_def)
            ultimately show ?thesis by blast
          qed
        qed
      qed
    qed
  qed
qed

lemma do_cd_general:
  assumes "do_cd argv s w = Inr (s', w')"
  shows "\<exists>new. log w' = log w @ new
     \<and> ((\<exists>e\<in>set new. \<not> lookup_dir_ok (snd e)) \<longrightarrow>
           s' = s \<and> out w' = out w @ [cd_failure new])
     \<and> (\<exists>h. s' = s\<lparr>directory_handle := h\<rparr>)"
proof (cases "mountpath s = None")
  case True
  with assms have "s' = s" "log w' = log w" by (auto simp: do_cd_def fprintf_stderr_def)
  then have "log w' = log w @ [] \<and> s' = s\<lparr>directory_handle := directory_handle s\<rparr>" by simp
  then show ?thesis by (metis empty_iff list.set(1))
next
  case mounted: False
  show ?thesis
  proof (cases argv)
    case Nil
    with assms mounted show ?thesis by (simp add: do_cd_def)
  next
    case (Cons a0 as)
    show ?thesis
    proof (cases as)
      case Nil
      with Cons assms mounted have "\<exists>h. s' = s\<lparr>directory_handle := h\<rparr>" "w' = w"
        by (auto simp: do_cd_def split: option.splits)
      then have "log w' = log w @ []" "\<exists>h. s' = s\<lparr>directory_handle := h\<rparr>" by auto
      then show ?thesis by (metis empty_iff list.set(1))
    next
      case as: (Cons p args)
      from assms mounted Cons as obtain h0 p1 r where
        walk: "cd_walk p1 h0 w = Inr (r, w')" and
        s': "s' = (case r of None \<Rightarrow> s | Some h \<Rightarrow> s\<lparr>directory_handle := nfs_fh3copy h\<rparr>)"
        by (auto simp: do_cd_def split: list.splits if_splits option.splits sum.splits)
      from cd_walk_log [OF walk] obtain new where new: "log w' = log w @ new"
        "case r of None \<Rightarrow> new \<noteq> [] \<and> out w' = out w @ [cd_failure new]
         | Some _ \<Rightarrow> (\<forall>e\<in>set new. lookup_dir_ok (snd e)) \<and> out w' = out w" by blast
      have "(\<exists>e\<in>set new. \<not> lookup_dir_ok (snd e)) \<longrightarrow> s' = s \<and> out w' = out w @ [cd_failure new]"
        using new(2) s' by (cases r) auto
      moreover have "\<exists>h. s' = s\<lparr>directory_handle := h\<rparr>"
      proof (cases r)
        case None
        then have "s' = s\<lparr>directory_handle := directory_handle s\<rparr>" using s' by simp
        then show ?thesis ..
      next
        case (Some h)
        then show ?thesis using s' by auto
      qed
      ultimately show ?thesis using new(1) by blast
    qed
  qed
qed

lemma do_cd_resolves:
  assumes "mountpath s \<noteq> None" and "NUL \<notin> set path"
    and "cd_start s path = Some (h0, rel)"
    and "resolve h0 (walk_pieces rel) (replies w) = (new, res)"
  shows "\<exists>w'. do_cd (cmd # (path @ NUL # NUL # rest) # args) s w =
             Inr ((case res of None \<Rightarrow> s | Some h \<Rightarrow> s\<lparr>directory_handle := h\<rparr>), w')
           \<and> log w' = log w @ new \<and> replies w' = drop (length new) (replies w)
           \<and> (case res of None \<Rightarrow> new \<noteq> [] \<and> out w' = out w @ [cd_failure new]
               | Some _ \<Rightarrow> out w' = out w)"
proof -
  have nn: "NUL \<notin> set rel" using assms(2,3)
    by (auto simp: cd_start_def split: list.splits if_splits)
  from cd_walk_resolve [OF nn assms(4), of rest] obtain w' where
    w': "cd_walk (rel @ NUL # NUL # rest) h0 w = Inr (res, w')"
      "log w' = log w @ new" "replies w' = drop (length new) (replies w)"
      "case res of None \<Rightarrow> new \<noteq> [] \<and> out w' = out w @ [cd_failure new]
       | Some _ \<Rightarrow> out w' = out w"
    by blast
  have "do_cd (cmd # (path @ NUL # NUL # rest) # args) s w =
             Inr ((case res of None \<Rightarrow> s | Some h \<Rightarrow> s\<lparr>directory_handle := h\<rparr>), w')"
  proof (cases path)
    case Nil
    with assms(3) have "h0 = directory_handle s" "rel = []" by (auto simp: cd_start_def)
    with Nil w'(1) assms(1) show ?thesis
      by (auto simp: do_cd_def NUL_def nfs_fh3copy_id split: option.splits)
  next
    case (Cons c r)
    show ?thesis
    proof (cases "c = CHR ''/''")
      case True
      with Cons assms(3) obtain mp where "mountpoint s = Some mp"
        "h0 = fhandle3_to_nfs_fh3 (mountinfo_fhandle mp)" "rel = r"
        by (auto simp: cd_start_def)
      with Cons True w'(1) assms(1) show ?thesis
        by (auto simp: do_cd_def nfs_fh3copy_id split: option.splits)
    next
      case False
      with Cons assms(3) have "h0 = directory_handle s" "rel = path" by (auto simp: cd_start_def)
      with Cons False w'(1) assms(1) show ?thesis
        by (auto simp: do_cd_def nfs_fh3copy_id split: option.splits)
    qed
  qed
  with w' show ?thesis by blast
qed

lemma walk_pieces_components:
  assumes "[] \<notin> set (walk_pieces s)"
  shows "walk_pieces s = path_components s"
proof (cases "last (split_slash s) = []")
  case True
  have "path_components s =
      filter (\<lambda>c. c \<noteq> []) (butlast (split_slash s) @ [last (split_slash s)])"
    using split_slash_ne [of s] by (simp add: path_components_def)
  also have "\<dots> = filter (\<lambda>c. c \<noteq> []) (butlast (split_slash s))"
    using True by simp
  also have "\<dots> = butlast (split_slash s)"
    using assms True by (auto simp: walk_pieces_def filter_id_conv)
  finally show ?thesis using True by (simp add: walk_pieces_def)
next
  case False
  then have "walk_pieces s = split_slash s" by (simp add: walk_pieces_def)
  moreover have "filter (\<lambda>c. c \<noteq> []) (split_slash s) = split_slash s"
    using assms calculation by (auto simp: filter_id_conv)
  ultimately show ?thesis by (simp add: path_components_def)
qed

text \<open>
  What holds of \<open>do_cd\<close>. For every argument vector (\<open>do_cd_general\<close>): if it returns,
  it has changed nothing of the session but, at most, the current directory handle; and
  if any call it made came back with something else than an NFS3_OK LOOKUP result for a
  directory, the session is exactly what it was and the line for that reply has been
  written. For a path that is followed by two NUL bytes, as the last word of a line that
  ends with a newline is (\<open>do_cd_resolves\<close>): the calls are the LOOKUPs of the pieces of
  the path, each in the handle reached so far, and these pieces are the components of
  the path when none of them is empty (\<open>walk_pieces_components\<close>).
\<close>

text \<open>
  C1. The walk is not the one that the claim describes. The loop ends a component with
  \<open>*p++ = '\0'\<close>, whether the byte there was a \<open>'/'\<close> or the NUL that ends the path,
  and so it steps over that NUL; it stops only where a component would begin with a NUL.
  For the line \<open>cd a b\<close>, with a server that knows both directories, it looks up "a",
  then "b" in the handle of "a", and makes the handle of "b" the current directory,
  where the walk over the components of the path "a" is the one LOOKUP of "a". And an
  empty piece between two \<open>'/'\<close> is looked up as well: for \<open>cd a//b\<close> the second
  call asks for the empty name, here refused by the server, so that the command fails
  and writes a line for the empty name, although the components of the path are
  "a" and "b".
\<close>

theorem do_cd_walks_beyond_path:
  "(case do_cd (argv_of [''cd'', ''a'', ''b'']) (session_at (handle_of ''cwd''))
           (world_of [lookup_reply NFS3_OK (handle_of ''h1'') NF3DIR 0,
                      lookup_reply NFS3_OK (handle_of ''h2'') NF3DIR 0]) of
      Inl f \<Rightarrow> False
    | Inr (s', w') \<Rightarrow>
        directory_handle s' = handle_of ''h2''
        \<and> log w' =
            [(LOOKUP \<lparr>what = \<lparr>dir = handle_of ''cwd'', name = ''a''\<rparr>\<rparr>,
              lookup_reply NFS3_OK (handle_of ''h1'') NF3DIR 0),
             (LOOKUP \<lparr>what = \<lparr>dir = handle_of ''h1'', name = ''b''\<rparr>\<rparr>,
              lookup_reply NFS3_OK (handle_of ''h2'') NF3DIR 0)]
        \<and> out w' = [])
   \<and> resolve (handle_of ''cwd'') (path_components ''a'')
        [lookup_reply NFS3_OK (handle_of ''h1'') NF3DIR 0,
         lookup_reply NFS3_OK (handle_of ''h2'') NF3DIR 0]
      = ([(LOOKUP \<lparr>what = \<lparr>dir = handle_of ''cwd'', name = ''a''\<rparr>\<rparr>,
           lookup_reply NFS3_OK (handle_of ''h1'') NF3DIR 0)], Some (handle_of ''h1''))
   \<and> (case do_cd (argv_of [''cd'', ''a//b'']) (session_at (handle_of ''cwd''))
           (world_of [lookup_reply NFS3_OK (handle_of ''h1'') NF3DIR 0,
                      lookup_reply NFS3ERR_ACCES (handle_of []) 0 0]) of
      Inl f \<Rightarrow> False
    | Inr (s', w') \<Rightarrow>
        directory_handle s' = handle_of ''cwd''
        \<and> log w' =
            [(LOOKUP \<lparr>what = \<lparr>dir = handle_of ''cwd'', name = ''a''\<rparr>\<rparr>,
              lookup_reply NFS3_OK (handle_of ''h1'') NF3DIR 0),
             (LOOKUP \<lparr>what = \<lparr>dir = handle_of ''h1'', name = []\<rparr>\<rparr>,
              lookup_reply NFS3ERR_ACCES (handle_of []) 0 0)]
        \<and> out w' = [Stderr_line '': Permission denied''])
   \<and> path_components ''a//b'' = [''a'', ''b'']"
  by code_simp

subsection \<open>chmod and chown\<close>

lemma rpc_log: "rpc c w = (r, w') \<Longrightarrow> log w' = log w @ [(c, r)] \<and> out w' = out w"
  by (auto simp: rpc_def split: list.splits)

lemma nfs3_lookup_3_log:
  "nfs3_lookup_3 args w = (x, w') \<Longrightarrow> \<exists>r. log w' = log w @ [(LOOKUP args, r)]"
  by (cases "replies w"; cases "hd (replies w)") (auto simp: nfs3_lookup_3_def rpc_def)

lemma nfs3_setattr_3_log:
  "nfs3_setattr_3 args w = (x, w') \<Longrightarrow> \<exists>r. log w' = log w @ [(SETATTR args, r)]"
  by (cases "replies w"; cases "hd (replies w)") (auto simp: nfs3_setattr_3_def rpc_def)

lemma log_clnt_perror [simp]: "log (clnt_perror m w) = log w"
  by (simp add: clnt_perror_def)

lemma log_fprintf_stderr [simp]: "log (fprintf_stderr m w) = log w"
  by (simp add: fprintf_stderr_def)

lemma do_chmod_setattr:
  assumes "(SETATTR a, r) \<in> set (drop (length (log w)) (log (do_chmod argv s w)))"
  shows "set_mode (new_attributes a) \<noteq> None \<and> set_uid (new_attributes a) = None
       \<and> set_gid (new_attributes a) = None \<and> set_size (new_attributes a) = None
       \<and> set_atime (new_attributes a) = DONT_CHANGE
       \<and> set_mtime (new_attributes a) = DONT_CHANGE \<and> \<not> guard_check a"
  using assms
  by (auto simp: do_chmod_def split: if_splits option.splits prod.splits
        dest!: nfs3_lookup_3_log nfs3_setattr_3_log)

lemma chown_setattr_gid:
  assumes "(SETATTR a, r) \<in> set (drop (length (log w)) (log (chown_setattr u g argv s w)))"
  shows "set_mode (new_attributes a) = None \<and> set_uid (new_attributes a) = Some (uint32 u)
       \<and> set_gid (new_attributes a) = Some (uint32 g) \<and> set_size (new_attributes a) = None
       \<and> set_atime (new_attributes a) = DONT_CHANGE
       \<and> set_mtime (new_attributes a) = DONT_CHANGE \<and> \<not> guard_check a"
  using assms
  by (auto simp: chown_setattr_def split: if_splits option.splits prod.splits
        dest!: nfs3_lookup_3_log nfs3_setattr_3_log)

lemma do_chown_setattr:
  assumes "(SETATTR a, r) \<in> set (drop (length (log w)) (log (do_chown argv s w)))"
  shows "set_mode (new_attributes a) = None \<and> set_uid (new_attributes a) \<noteq> None
       \<and> set_gid (new_attributes a) \<noteq> None \<and> set_size (new_attributes a) = None
       \<and> set_atime (new_attributes a) = DONT_CHANGE
       \<and> set_mtime (new_attributes a) = DONT_CHANGE \<and> \<not> guard_check a"
  using assms
  by (auto simp: do_chown_def split: if_splits option.splits prod.splits
        dest!: chown_setattr_gid)

text \<open>
  C8. Whatever the arguments, a SETATTR sent by \<open>do_chmod\<close> sets the mode and nothing
  else and has \<open>check = FALSE\<close>, and so far the claim holds. A SETATTR sent by
  \<open>do_chown\<close> sets the uid and, always, the gid (the two lemmas above). For
  \<open>chown 1000 f\<close>, where the user gives no gid, the SETATTR that goes out after the
  LOOKUP of "f" has \<open>set_it = TRUE\<close> for the gid, with the value 4294967295 that the
  -1 in \<open>own_gid\<close> becomes.
\<close>

theorem do_chown_sets_gid_unasked:
  "log (do_chown [cstr ''chown'', cstr ''1000'', cstr ''f''] (session_at (handle_of ''cwd''))
         (world_of [lookup_reply NFS3_OK (handle_of ''hf'') NF3REG 10,
                    SETATTR3 \<lparr>status = NFS3_OK, resok = ()\<rparr>]))
   = [(LOOKUP \<lparr>what = \<lparr>dir = handle_of ''cwd'', name = ''f''\<rparr>\<rparr>,
       lookup_reply NFS3_OK (handle_of ''hf'') NF3REG 10),
      (SETATTR \<lparr>sa_object = handle_of ''hf'',
                new_attributes =
                  \<lparr>set_mode = None, set_uid = Some 1000, set_gid = Some 4294967295,
                   set_size = None, set_atime = DONT_CHANGE, set_mtime = DONT_CHANGE\<rparr>,
                guard_check = False\<rparr>,
       SETATTR3 \<lparr>status = NFS3_OK, resok = ()\<rparr>)]"
  by code_simp

subsection \<open>Reading a directory\<close>

lemma add_entries_no_oom:
  "oom_after w = None \<Longrightarrow> 0 < n \<Longrightarrow>
   \<exists>n'. 0 < n' \<and> add_entries es tbl n w = Inr (True, tbl @ map entry_name es, n', w)"
proof (induction es arbitrary: tbl n)
  case Nil
  then show ?case by simp
next
  case (Cons e es)
  let ?n1 = "if length tbl = n then 2 * n else n"
  have "0 < ?n1" using Cons.prems(2) by simp
  from Cons.IH [OF Cons.prems(1) this, of "tbl @ [entry_name e]"]
  obtain n' where "0 < n'" "add_entries es (tbl @ [entry_name e]) ?n1 w =
      Inr (True, tbl @ map entry_name (e # es), n', w)" by auto
  then show ?case using Cons.prems by (auto simp: alloc_def realloc_def)
qed

lemma nfs3_readdir_3_next:
  "replies w = READDIR3 r # rs \<Longrightarrow>
   nfs3_readdir_3 args w = (Some r, w\<lparr>replies := rs, log := log w @ [(READDIR args, READDIR3 r)]\<rparr>)"
  by (simp add: nfs3_readdir_3_def rpc_def)

lemma getdirentries_loop_bad_status:
  assumes "oom_after w = None"
    and "replies w = map READDIR3 oks @ READDIR3 bad # rest"
    and "\<forall>r\<in>set oks. status r = NFS3_OK \<and> \<not> reply_eof (resok r) \<and> reply_entries (resok r) \<noteq> []"
    and "status bad \<noteq> NFS3_OK"
    and "0 < n"
  shows "\<exists>w'. getdirentries_loop args tbl n w = Inr (1, qsort_dircmp (tbl @ names_of oks), w')
           \<and> replies w' = rest
           \<and> out w' = out w @ [Stderr_line (''Readdir failed: '' @ nfs_error (status bad))]"
  using assms
proof (induction oks arbitrary: args tbl n w)
  case Nil
  then have "nfs3_readdir_3 args w =
      (Some bad, w\<lparr>replies := rest, log := log w @ [(READDIR args, READDIR3 bad)]\<rparr>)"
    by (simp add: nfs3_readdir_3_next)
  then show ?case using Nil.prems(4)
    by (subst getdirentries_loop.simps) (simp add: names_of_def fprintf_stderr_def)
next
  case (Cons r oks)
  let ?w1 = "w\<lparr>replies := map READDIR3 oks @ READDIR3 bad # rest,
                 log := log w @ [(READDIR args, READDIR3 r)]\<rparr>"
  have rd: "nfs3_readdir_3 args w = (Some r, ?w1)"
    using Cons.prems(2) by (simp add: nfs3_readdir_3_next)
  have r: "status r = NFS3_OK" "\<not> reply_eof (resok r)" "reply_entries (resok r) \<noteq> []"
    using Cons.prems(3) by auto
  have oom: "oom_after ?w1 = None" using Cons.prems(1) by simp
  obtain n' where n': "0 < n'" and ae: "add_entries (reply_entries (resok r)) tbl n ?w1 =
      Inr (True, tbl @ map entry_name (reply_entries (resok r)), n', ?w1)"
    using add_entries_no_oom [OF oom Cons.prems(5)] by blast
  let ?args' = "args\<lparr>readdir_cookie := entry_cookie (last (reply_entries (resok r)))\<rparr>"
  let ?tbl' = "tbl @ map entry_name (reply_entries (resok r))"
  have step: "getdirentries_loop args tbl n w = getdirentries_loop ?args' ?tbl' n' ?w1"
    by (subst getdirentries_loop.simps) (simp add: rd r ae)
  have "\<exists>w'. getdirentries_loop ?args' ?tbl' n' ?w1 = Inr (1, qsort_dircmp (?tbl' @ names_of oks), w')
           \<and> replies w' = rest
           \<and> out w' = out ?w1 @ [Stderr_line (''Readdir failed: '' @ nfs_error (status bad))]"
    using Cons.prems(3,4) n' by (intro Cons.IH [OF oom]) auto
  then show ?case unfolding step by (simp add: names_of_def)
qed

text \<open>
  C2, as amended. Take a run of \<open>getdirentries\<close>, called for a table of at least one
  entry (its callers ask for 20), in which memory does not run out and the server answers with some READDIR results that have the status NFS3_OK, not \<open>eof\<close>
  and at least one entry each, and then with a result whose status is not NFS3_OK. The
  loop ends at that reply, the line "Readdir failed: ..." is written, and the function
  returns 1 with the names of the earlier replies, sorted: the caller receives the
  truncated listing as if the directory had been read to its end.
\<close>

theorem getdirentries_keeps_partial_listing:
  assumes "oom_after w = None"
    and "replies w = map READDIR3 oks @ READDIR3 bad # rest"
    and "\<forall>r\<in>set oks. status r = NFS3_OK \<and> \<not> reply_eof (resok r) \<and> reply_entries (resok r) \<noteq> []"
    and "status bad \<noteq> NFS3_OK"
    and "0 < nentries"
  shows "\<exists>w'. getdirentries dirhandle nentries w = Inr (1, qsort_dircmp (names_of oks), w')
           \<and> replies w' = rest
           \<and> out w' = out w @ [Stderr_line (''Readdir failed: '' @ nfs_error (status bad))]"
  using getdirentries_loop_bad_status [OF assms, of _ "[]"] assms(1)
  by (simp add: getdirentries_def alloc_def)

text \<open>
  The theorem at work: a first reply with the names "b" and "a", then NFS3ERR_IO.
\<close>

lemma qsort_dircmp_example: "qsort_dircmp [''b'', ''a''] = [''a'', ''b'']"
  by code_simp

theorem getdirentries_keeps_partial_listing_witness:
  "\<exists>w'. getdirentries (handle_of ''cwd'') 20
           (world_of [READDIR3 (readdir_reply NFS3_OK [(''b'', 1), (''a'', 2)] False),
                      READDIR3 (readdir_reply NFS3ERR_IO [] False)])
         = Inr (1, [''a'', ''b''], w')
       \<and> replies w' = [] \<and> out w' = [Stderr_line ''Readdir failed: I/O error'']"
  using getdirentries_keeps_partial_listing
    [of "world_of [READDIR3 (readdir_reply NFS3_OK [(''b'', 1), (''a'', 2)] False),
                   READDIR3 (readdir_reply NFS3ERR_IO [] False)]"
        "[readdir_reply NFS3_OK [(''b'', 1), (''a'', 2)] False]"
        "readdir_reply NFS3ERR_IO [] False" "[]" 20 "handle_of ''cwd''"]
  by (simp add: world_of_def readdir_reply_def names_of_def nfsstat3_defs nfs_error_def
        qsort_dircmp_example)

text \<open>
  Against C2 as stated: in the same run the caller does not receive nothing. The function
  returns 1, which its callers take for success, and the two names read before the error.
\<close>

theorem getdirentries_truncated_listing_counterexample:
  "(case getdirentries (handle_of ''cwd'') 20
           (world_of [READDIR3 (readdir_reply NFS3_OK [(''b'', 1), (''a'', 2)] False),
                      READDIR3 (readdir_reply NFS3ERR_IO [] False)]) of
      Inl f \<Rightarrow> False
    | Inr (ret, tbl, w') \<Rightarrow>
        ret = 1 \<and> tbl = [''a'', ''b''] \<and> out w' = [Stderr_line ''Readdir failed: I/O error''])"
  by code_simp

subsection \<open>Reading a file\<close>

lemma nfs3_read_3_log:
  "nfs3_read_3 args w = (x, w') \<Longrightarrow>
   \<exists>r. log w' = log w @ [(READ args, r)] \<and> (case x of Some res \<Rightarrow> r = READ3 res
        | None \<Rightarrow> (case r of READ3 _ \<Rightarrow> False | _ \<Rightarrow> True))"
  by (cases "replies w"; cases "hd (replies w)") (auto simp: nfs3_read_3_def rpc_def)

lemma log_fwrite_fp [simp]: "log (fwrite_fp b w) = log w"
  by (simp add: fwrite_fp_def)

text \<open>
  The loop of \<open>do_get\<close> does what the claim says: the calls it makes pass the test
  \<open>read_chain\<close>, and a final offset that differs from the size costs one line on
  stderr and nothing else.
\<close>

lemma do_get_read_loop_chain:
  "do_get_read_loop argv1 fh sz tsize off w = Inr (off', w') \<Longrightarrow>
   \<exists>es. log w' = log w @ es \<and> read_chain fh (uint32 tsize) off es"
proof (induction argv1 fh sz tsize off w rule: do_get_read_loop.induct)
  case (1 argv1 fh sz tsize offset w)
  let ?args = "\<lparr>read_file = fh, read_offset = offset, read_count = uint32 tsize\<rparr>"
  show ?case
  proof (cases "offset < sz")
    case False
    with "1.prems" have "w' = w" by (simp add: do_get_read_loop.simps [of argv1 fh sz tsize offset w])
    then have "log w' = log w @ [] \<and> read_chain fh (uint32 tsize) offset []" by simp
    then show ?thesis by blast
  next
    case True
    obtain x w1 where rd: "nfs3_read_3 ?args w = (x, w1)" by (cases "nfs3_read_3 ?args w")
    from nfs3_read_3_log [OF rd] obtain r where r: "log w1 = log w @ [(READ ?args, r)]"
      "case x of Some res \<Rightarrow> r = READ3 res | None \<Rightarrow> (case r of READ3 _ \<Rightarrow> False | _ \<Rightarrow> True)"
      by blast
    note unf = do_get_read_loop.simps [of argv1 fh sz tsize offset w]
    show ?thesis
    proof (cases x)
      case None
      with "1.prems" True rd have "w' = clnt_perror ''nfs3_read'' w1" by (simp add: unf)
      moreover have "read_chain fh (uint32 tsize) offset [(READ ?args, r)]"
        using r(2) None by (cases r) auto
      ultimately have "log w' = log w @ [(READ ?args, r)] \<and>
          read_chain fh (uint32 tsize) offset [(READ ?args, r)]" using r(1) by (simp add: clnt_perror_def)
      then show ?thesis by blast
    next
      case (Some rres)
      then have rr: "r = READ3 rres" using r(2) by simp
      show ?thesis
      proof (cases "status rres = NFS3_OK \<and> \<not> eof (resok rres)")
        case False
        with "1.prems" True rd Some have "log w' = log w1"
          by (auto simp: unf fprintf_stderr_def split: option.splits if_splits)
        moreover have "read_chain fh (uint32 tsize) offset [(READ ?args, r)]"
          using rr False by auto
        ultimately have "log w' = log w @ [(READ ?args, r)] \<and>
          read_chain fh (uint32 tsize) offset [(READ ?args, r)]" using r(1) by simp
        then show ?thesis by blast
      next
        case go: True
        let ?off1 = "uint64 (offset + int (length (data (resok rres))))"
        let ?w2 = "fwrite_fp (data (resok rres)) w1"
        from "1.prems" True rd Some go
        have rec: "do_get_read_loop argv1 fh sz tsize ?off1 ?w2 = Inr (off', w')"
          by (simp add: unf)
        from go have g1: "\<not> status rres \<noteq> NFS3_OK" and g2: "\<not> eof (resok rres)" by auto
        from "1.IH" [OF True rd [symmetric] Some g1 g2 rec]
        obtain es where es: "log w' = log ?w2 @ es" "read_chain fh (uint32 tsize) ?off1 es"
          by blast
        have "log w' = log w @ ((READ ?args, r) # es)" using es(1) r(1) by simp
        moreover have "read_chain fh (uint32 tsize) offset ((READ ?args, r) # es)"
          using es(2) rr go by simp
        ultimately show ?thesis by blast
      qed
    qed
  qed
qed

lemma do_get_transfer_warns:
  assumes "do_get_read_loop argv1 (nfs_fh3copy (object (resok res)))
             (attr_size (attributes (obj_attributes (resok res)))) (transfersize s) 0 w
           = Inr (off', w1)"
  shows "do_get_transfer argv1 p res s w =
           Inr (if off' \<noteq> attr_size (attributes (obj_attributes (resok res)))
                then fprintf_stderr
                       (p @ '': size mismatch on read (expected ''
                          @ show_int (attr_size (attributes (obj_attributes (resok res))))
                          @ '', read '' @ show_int off' @ '')'') w1
                else w1)"
  using assms by (simp add: do_get_transfer_def)

text \<open>
  C6. The loop of \<open>do_cat\<close> does not. With a transfer size of 8 and a file of 10 bytes,
  a first reply of 4 bytes is followed by a READ at offset 8, not 4: the offset advances
  by the transfer size, and the bytes 4 to 7 of the file are never asked for. With a
  transfer size of 4, a first reply with \<open>eof\<close> set is followed by further READs.
\<close>

theorem do_cat_skips_after_short_read:
  "log (do_cat [cstr ''cat'', cstr ''f''] ((session_at (handle_of ''cwd''))\<lparr>transfersize := 8\<rparr>)
         (world_of [lookup_reply NFS3_OK (handle_of ''hf'') NF3REG 10,
                    read_reply NFS3_OK ''abcd'' False, read_reply NFS3_OK ''ij'' True]))
   = [(LOOKUP \<lparr>what = \<lparr>dir = handle_of ''cwd'', name = ''f''\<rparr>\<rparr>,
       lookup_reply NFS3_OK (handle_of ''hf'') NF3REG 10),
      (READ \<lparr>read_file = handle_of ''hf'', read_offset = 0, read_count = 8\<rparr>,
       read_reply NFS3_OK ''abcd'' False),
      (READ \<lparr>read_file = handle_of ''hf'', read_offset = 8, read_count = 8\<rparr>,
       read_reply NFS3_OK ''ij'' True)]
   \<and> out (do_cat [cstr ''cat'', cstr ''f''] ((session_at (handle_of ''cwd''))\<lparr>transfersize := 8\<rparr>)
         (world_of [lookup_reply NFS3_OK (handle_of ''hf'') NF3REG 10,
                    read_reply NFS3_OK ''abcd'' False, read_reply NFS3_OK ''ij'' True]))
     = [Stdout ''abcd'', Stdout ''ij'']
   \<and> map fst (log (do_cat [cstr ''cat'', cstr ''f'']
         ((session_at (handle_of ''cwd''))\<lparr>transfersize := 4\<rparr>)
         (world_of [lookup_reply NFS3_OK (handle_of ''hf'') NF3REG 10,
                    read_reply NFS3_OK ''abcd'' True, read_reply NFS3_OK ''efgh'' True,
                    read_reply NFS3_OK ''ij'' True])))
     = [LOOKUP \<lparr>what = \<lparr>dir = handle_of ''cwd'', name = ''f''\<rparr>\<rparr>,
        READ \<lparr>read_file = handle_of ''hf'', read_offset = 0, read_count = 4\<rparr>,
        READ \<lparr>read_file = handle_of ''hf'', read_offset = 4, read_count = 4\<rparr>,
        READ \<lparr>read_file = handle_of ''hf'', read_offset = 8, read_count = 4\<rparr>]"
  by code_simp

subsection \<open>put\<close>

lemma nfs3_write_3_next:
  "replies w = WRITE3 r # rs \<Longrightarrow>
   nfs3_write_3 args w = (Some r, w\<lparr>replies := rs, log := log w @ [(WRITE args, WRITE3 r)]\<rparr>)"
  by (simp add: nfs3_write_3_def rpc_def)

lemma nfs3_create_3_next:
  "replies w = CREATE3 r # rs \<Longrightarrow>
   nfs3_create_3 args w = (Some r, w\<lparr>replies := rs, log := log w @ [(CREATE args, CREATE3 r)]\<rparr>)"
  by (simp add: nfs3_create_3_def rpc_def)

lemma nfs3_lookup_3_next:
  "replies w = LOOKUP3 r # rs \<Longrightarrow>
   nfs3_lookup_3 args w = (Some r, w\<lparr>replies := rs, log := log w @ [(LOOKUP args, LOOKUP3 r)]\<rparr>)"
  by (simp add: nfs3_lookup_3_def rpc_def)

lemma write_calls_Nil: "write_calls h off [] = []"
  by (subst write_calls.simps) simp

lemma write_calls_Cons:
  "content \<noteq> [] \<Longrightarrow>
   write_calls h off content =
     \<lparr>wr_file = h, wr_offset = uint64 off,
      wr_count = uint32 (int (length (take BUFSIZ content))),
      wr_stable = UNSTABLE, wr_data = take BUFSIZ content\<rparr>
     # write_calls h (off + int (length (take BUFSIZ content))) (drop BUFSIZ content)"
  by (subst write_calls.simps) (simp add: BUFSIZ_def)

lemma write_calls_data: "concat (map wr_data (write_calls h off content)) = content"
proof (induction h off content rule: write_calls.induct)
  case (1 h off content)
  show ?case
  proof (cases "content = []")
    case True
    then show ?thesis by (simp add: write_calls_Nil)
  next
    case False
    then show ?thesis using "1.IH" by (simp add: write_calls_Cons BUFSIZ_def)
  qed
qed

lemma write_calls_start:
  "content \<noteq> [] \<Longrightarrow> wr_offset (hd (write_calls h off content)) = uint64 off
     \<and> (\<forall>a\<in>set (write_calls h off content). wr_file a = h)"
proof (induction h off content rule: write_calls.induct)
  case (1 h off content)
  then show ?case
    by (cases "drop BUFSIZ content = []")
       (simp_all add: write_calls_Cons [of content] write_calls_Nil BUFSIZ_def)
qed

lemma put_write_loop_all_ok:
  assumes "replies w = map WRITE3 oks @ rest"
    and "\<forall>r\<in>set oks. status r = NFS3_OK"
    and "length oks = length (write_calls h off content)"
  shows "log (put_write_loop h off content w) =
           log w @ zip (map WRITE (write_calls h off content)) (map WRITE3 oks)
         \<and> out (put_write_loop h off content w) = out w
         \<and> replies (put_write_loop h off content w) = rest"
  using assms
proof (induction h off content arbitrary: w oks rule: write_calls.induct)
  case (1 h off content)
  show ?case
  proof (cases "content = []")
    case True
    with "1.prems" show ?thesis
      by (simp add: write_calls_Nil put_write_loop.simps [of h off "[]"])
  next
    case False
    let ?buf = "take BUFSIZ content"
    let ?a = "\<lparr>wr_file = h, wr_offset = uint64 off, wr_count = uint32 (int (length ?buf)),
               wr_stable = UNSTABLE, wr_data = ?buf\<rparr>"
    have wc: "write_calls h off content =
        ?a # write_calls h (off + int (length ?buf)) (drop BUFSIZ content)"
      by (rule write_calls_Cons [OF False])
    with "1.prems"(3) obtain r oks' where oks: "oks = r # oks'"
      "length oks' = length (write_calls h (off + int (length ?buf)) (drop BUFSIZ content))"
      by (cases oks) auto
    let ?w1 = "w\<lparr>replies := map WRITE3 oks' @ rest, log := log w @ [(WRITE ?a, WRITE3 r)]\<rparr>"
    have wr: "nfs3_write_3 ?a w = (Some r, ?w1)"
      using "1.prems"(1) oks by (simp add: nfs3_write_3_next)
    have pos: "0 < int (length ?buf)" using False by (simp add: BUFSIZ_def)
    have rok: "status r = NFS3_OK" using "1.prems"(2) oks by simp
    have step: "put_write_loop h off content w =
        put_write_loop h (off + int (length ?buf)) (drop BUFSIZ content) ?w1"
      by (subst put_write_loop.simps)
         (simp only: Let_def pos if_True nfs_fh3copy_id wr prod.case option.case rok
            simp_thms if_False)
    have nz: "\<not> (BUFSIZ = 0 \<or> content = [])" using False by (simp add: BUFSIZ_def)
    have ih: "log (put_write_loop h (off + int (length ?buf)) (drop BUFSIZ content) ?w1) =
           log ?w1 @ zip (map WRITE (write_calls h (off + int (length ?buf)) (drop BUFSIZ content)))
                      (map WRITE3 oks')
         \<and> out (put_write_loop h (off + int (length ?buf)) (drop BUFSIZ content) ?w1) = out ?w1
         \<and> replies (put_write_loop h (off + int (length ?buf)) (drop BUFSIZ content) ?w1) = rest"
      using "1.prems"(2) oks by (intro "1.IH" [OF nz]) auto
    show ?thesis unfolding step using ih wc oks by simp
  qed
qed

text \<open>
  C10. Let the remote file system be mounted, the local file be there, and the server
  answer the CREATE with a status other than NFS3_OK, the LOOKUP with NFS3_OK, and every
  WRITE with NFS3_OK. Then \<open>do_put\<close> writes one warning line and goes on: after the
  CREATE it sends the LOOKUP of the same name in the same directory, and then the WRITE
  calls that carry the local file to the handle the LOOKUP gave, piece by piece, the
  first at offset 0; the pieces together are the content of the local file.
\<close>

theorem do_put_goes_on_after_create_failure:
  assumes "mountpath s \<noteq> None"
    and "length argv = 2 \<or> length argv = 3"
    and "files w (str_of (argv ! 1)) = Some content"
    and "replies w = CREATE3 cres # LOOKUP3 dres # map WRITE3 oks @ rest"
    and "status cres \<noteq> NFS3_OK"
    and "status dres = NFS3_OK"
    and "\<forall>r\<in>set oks. status r = NFS3_OK"
    and "length oks = length (write_calls (object (resok dres)) 0 content)"
  shows "log (do_put argv s w) =
           log w @
           (CREATE \<lparr>cr_where = \<lparr>dir = directory_handle s, name = put_remote_name argv\<rparr>,
                    how_mode = EXCLUSIVE,
                    how_obj_attributes =
                      \<lparr>set_mode = Some 438, set_uid = Some (uint32 (uid s)),
                       set_gid = Some (uint32 (gid s)), set_size = None,
                       set_atime = DONT_CHANGE, set_mtime = DONT_CHANGE\<rparr>\<rparr>, CREATE3 cres)
           # (LOOKUP \<lparr>what = \<lparr>dir = directory_handle s, name = put_remote_name argv\<rparr>\<rparr>,
              LOOKUP3 dres)
           # zip (map WRITE (write_calls (object (resok dres)) 0 content)) (map WRITE3 oks)
         \<and> out (do_put argv s w) =
             out w @ [Stderr_line (''WARNING: Create failed: '' @ nfs_error (status cres))]
         \<and> concat (map wr_data (write_calls (object (resok dres)) 0 content)) = content
         \<and> (\<forall>a\<in>set (write_calls (object (resok dres)) 0 content).
               wr_file a = object (resok dres))
         \<and> (content \<noteq> [] \<longrightarrow>
               wr_offset (hd (write_calls (object (resok dres)) 0 content)) = 0)"
proof -
  let ?cargs = "\<lparr>cr_where = \<lparr>dir = directory_handle s, name = put_remote_name argv\<rparr>,
                    how_mode = EXCLUSIVE,
                    how_obj_attributes =
                      \<lparr>set_mode = Some 438, set_uid = Some (uint32 (uid s)),
                       set_gid = Some (uint32 (gid s)), set_size = None,
                       set_atime = DONT_CHANGE, set_mtime = DONT_CHANGE\<rparr>\<rparr>"
  let ?dargs = "\<lparr>what = \<lparr>dir = directory_handle s, name = put_remote_name argv\<rparr>\<rparr>"
  let ?w1 = "w\<lparr>replies := LOOKUP3 dres # map WRITE3 oks @ rest,
                 log := log w @ [(CREATE ?cargs, CREATE3 cres)]\<rparr>"
  let ?w1' = "fprintf_stderr (''WARNING: Create failed: '' @ nfs_error (status cres)) ?w1"
  let ?w2 = "?w1'\<lparr>replies := map WRITE3 oks @ rest,
                 log := log ?w1' @ [(LOOKUP ?dargs, LOOKUP3 dres)]\<rparr>"
  have cr: "nfs3_create_3 ?cargs w = (Some cres, ?w1)"
    using assms(4) by (simp add: nfs3_create_3_next)
  have lk: "nfs3_lookup_3 ?dargs ?w1' = (Some dres, ?w2)"
    by (rule nfs3_lookup_3_next) (simp add: fprintf_stderr_def)
  have put: "do_put argv s w = put_write_loop (object (resok dres)) 0 content ?w2"
    using assms(1,2,3,5,6) cr lk by (auto simp: do_put_def nfs_fh3copy_id)
  have r2: "replies ?w2 = map WRITE3 oks @ rest" by simp
  note loop = put_write_loop_all_ok [OF r2 assms(7,8)]
  have z: "uint64 0 = 0" by (simp add: uint64_def)
  have l1: "log (do_put argv s w) =
      log ?w2 @ zip (map WRITE (write_calls (object (resok dres)) 0 content)) (map WRITE3 oks)"
    unfolding put using loop by blast
  have l2: "log ?w2 = log w @ [(CREATE ?cargs, CREATE3 cres), (LOOKUP ?dargs, LOOKUP3 dres)]"
    by (simp add: fprintf_stderr_def)
  have o1: "out (do_put argv s w) = out ?w2" unfolding put using loop by blast
  have o2: "out ?w2 =
      out w @ [Stderr_line (''WARNING: Create failed: '' @ nfs_error (status cres))]"
    by (simp add: fprintf_stderr_def)
  have st: "content \<noteq> [] \<longrightarrow>
      wr_offset (hd (write_calls (object (resok dres)) 0 content)) = 0"
    using write_calls_start [of content "object (resok dres)" 0] z by simp
  have fl: "\<forall>a\<in>set (write_calls (object (resok dres)) 0 content).
      wr_file a = object (resok dres)"
  proof (cases "content = []")
    case True
    then show ?thesis by (simp add: write_calls_Nil)
  next
    case False
    then show ?thesis using write_calls_start [of content "object (resok dres)" 0] by blast
  qed
  show ?thesis
    unfolding l1 l2 o1 o2 using write_calls_data st fl by simp
qed

text \<open>
  The theorem at work: the remote name exists already (NFS3ERR_EXIST), and the five bytes
  of the local file are written over it from offset 0.
\<close>

lemma write_calls_example:
  "write_calls (handle_of ''hf'') 0 ''hello'' =
     [\<lparr>wr_file = handle_of ''hf'', wr_offset = 0, wr_count = 5, wr_stable = UNSTABLE,
       wr_data = ''hello''\<rparr>]"
  by (simp add: write_calls_Cons write_calls_Nil BUFSIZ_def uint64_def uint32_def)

theorem do_put_goes_on_after_create_failure_witness:
  "log (do_put [cstr ''put'', cstr ''l''] (session_at (handle_of ''cwd''))
         ((world_of [CREATE3 \<lparr>status = NFS3ERR_EXIST, resok = ()\<rparr>,
                     lookup_reply NFS3_OK (handle_of ''hf'') NF3REG 99,
                     WRITE3 \<lparr>status = NFS3_OK, resok = ()\<rparr>])
            \<lparr>files := (\<lambda>n. if n = ''l'' then Some ''hello'' else None)\<rparr>))
   = [(CREATE \<lparr>cr_where = \<lparr>dir = handle_of ''cwd'', name = ''l''\<rparr>,
               how_mode = EXCLUSIVE,
               how_obj_attributes =
                 \<lparr>set_mode = Some 438, set_uid = Some 4294967294,
                  set_gid = Some 4294967294, set_size = None,
                  set_atime = DONT_CHANGE, set_mtime = DONT_CHANGE\<rparr>\<rparr>,
       CREATE3 \<lparr>status = NFS3ERR_EXIST, resok = ()\<rparr>),
      (LOOKUP \<lparr>what = \<lparr>dir = handle_of ''cwd'', name = ''l''\<rparr>\<rparr>,
       lookup_reply NFS3_OK (handle_of ''hf'') NF3REG 99),
      (WRITE \<lparr>wr_file = handle_of ''hf'', wr_offset = 0, wr_count = 5,
              wr_stable = UNSTABLE, wr_data = ''hello''\<rparr>,
       WRITE3 \<lparr>status = NFS3_OK, resok = ()\<rparr>)]
   \<and> out (do_put [cstr ''put'', cstr ''l''] (session_at (handle_of ''cwd''))
         ((world_of [CREATE3 \<lparr>status = NFS3ERR_EXIST, resok = ()\<rparr>,
                     lookup_reply NFS3_OK (handle_of ''hf'') NF3REG 99,
                     WRITE3 \<lparr>status = NFS3_OK, resok = ()\<rparr>])
            \<lparr>files := (\<lambda>n. if n = ''l'' then Some ''hello'' else None)\<rparr>))
     = [Stderr_line ''WARNING: Create failed: File exists'']"
proof -
  let ?s = "session_at (handle_of ''cwd'')"
  let ?argv = "[cstr ''put'', cstr ''l'']"
  let ?dres = "\<lparr>status = NFS3_OK, resok = \<lparr>object = handle_of ''hf'', obj_attributes =
       \<lparr>attributes_follow = True,
        attributes = \<lparr>attr_type = NF3REG, attr_mode = 420, attr_size = 99\<rparr>\<rparr>\<rparr>\<rparr>"
  let ?cres = "\<lparr>status = NFS3ERR_EXIST, resok = ()\<rparr>"
  let ?ok = "\<lparr>status = NFS3_OK, resok = ()\<rparr>"
  let ?w = "(world_of [CREATE3 ?cres, lookup_reply NFS3_OK (handle_of ''hf'') NF3REG 99,
                     WRITE3 ?ok])
            \<lparr>files := (\<lambda>n. if n = ''l'' then Some ''hello'' else None)\<rparr>"
  have a: "mountpath ?s \<noteq> None" by (simp add: session_at_def)
  have b: "length ?argv = 2 \<or> length ?argv = 3" by simp
  have n: "str_of (?argv ! 1) = ''l''" by (simp add: str_of_def cstr_def NUL_def)
  have c: "files ?w (str_of (?argv ! 1)) = Some ''hello''" unfolding n by simp
  have d: "replies ?w = CREATE3 ?cres # LOOKUP3 ?dres # map WRITE3 [?ok] @ []"
    by (simp add: world_of_def lookup_reply_def)
  have e: "status ?cres \<noteq> NFS3_OK" by (simp add: nfsstat3_defs)
  have f: "status ?dres = NFS3_OK" by simp
  have g: "\<forall>r\<in>set [?ok]. status r = NFS3_OK" by simp
  have h: "length [?ok] = length (write_calls (object (resok ?dres)) 0 ''hello'')"
    by (simp add: write_calls_example)
  have rn: "put_remote_name ?argv = ''l''" using n by (simp add: put_remote_name_def)
  show ?thesis
    using do_put_goes_on_after_create_failure [OF a b c d e f g h]
    by (simp add: rn write_calls_example world_of_def session_at_def lookup_reply_def
          uint32_def nfs_error_def nfsstat3_defs)
qed

subsection \<open>Channels\<close>

lemma quiet_refl: "quiet w w"
  by (simp add: quiet_def creates_def)

lemma quiet_trans: "quiet w w1 \<Longrightarrow> quiet w1 w2 \<Longrightarrow> quiet w w2"
  by (auto simp: quiet_def creates_def)

lemma quiet_out: "quiet w w1 \<Longrightarrow> quiet w (w1\<lparr>out := x\<rparr>)"
  by (simp add: quiet_def)

lemma quiet_rpc: "\<not> is_create c \<Longrightarrow> rpc c w = (r, w1) \<Longrightarrow> quiet w w1"
  by (auto simp: quiet_def creates_def rpc_def split: list.splits)

lemma quiet_rpc_snd: "\<not> is_create c \<Longrightarrow> quiet w (snd (rpc c w))"
  by (cases "rpc c w") (auto dest: quiet_rpc)

lemma quiet_close_nfs: "close_nfs s w = Inr (s1, w1) \<Longrightarrow> quiet w w1"
proof -
  assume a: "close_nfs s w = Inr (s1, w1)"
  show ?thesis
  proof (cases "mountpath s")
    case None
    with a show ?thesis by (simp add: close_nfs_def quiet_refl)
  next
    case (Some mp)
    let ?w1 = "if verbose s then printf_stdout (''Unmount `'' @ mp @ [CHR 0x27, CHR 0x0A]) w else w"
    have q1: "quiet w ?w1" by (simp add: printf_stdout_def quiet_out quiet_refl)
    obtain r w2 where r: "rpc (UMNT mp) ?w1 = (r, w2)" by (cases "rpc (UMNT mp) ?w1")
    have q2: "quiet ?w1 w2" using r by (rule quiet_rpc [rotated]) (simp add: is_create_def)
    from a Some r have "w1 = w2"
      by (auto simp: close_nfs_def Let_def split: if_splits option.splits)
    with q1 q2 show ?thesis by (auto intro: quiet_trans)
  qed
qed

lemma quiet_setup_sock: "setup_sock b s w = Inr (sock, w1) \<Longrightarrow> quiet w w1"
proof -
  assume a: "setup_sock b s w = Inr (sock, w1)"
  then obtain sk evs where p: "privileged (net w) (verbose s) = Some (sk, evs)"
    by (auto simp: setup_sock_def split: option.splits)
  let ?w1 = "w\<lparr>out := out w @ stderr_lines evs\<rparr>"
  have q1: "quiet w ?w1" by (simp add: quiet_out quiet_refl)
  show ?thesis
  proof (cases "sk \<noteq> RPC_ANYSOCK")
    case False
    with a p show ?thesis using q1 by (simp add: setup_sock_def)
  next
    case True
    let ?g = "PMAP_GETPORT (if b then IPPROTO_TCP else IPPROTO_UDP)"
    obtain r w2 where r: "rpc ?g ?w1 = (r, w2)" by (cases "rpc ?g ?w1")
    let ?c = "CONNECT (case r of PORT p \<Rightarrow> p | _ \<Rightarrow> 0)"
    obtain r3 w3 where r3: "rpc ?c w2 = (r3, w3)" by (cases "rpc ?c w2")
    have q2: "quiet ?w1 w2" using r by (rule quiet_rpc [rotated]) (simp add: is_create_def)
    have q3: "quiet w2 w3" using r3 by (rule quiet_rpc [rotated]) (simp add: is_create_def)
    have q: "quiet w w3" using q1 q2 q3 by (blast intro: quiet_trans)
    from a p True r r3 have "w1 = w3 \<or> w1 = perror ''connect'' w3"
      by (cases r3) (auto simp: setup_sock_def)
    then show ?thesis using q by (auto simp: perror_def quiet_out)
  qed
qed

lemma clnt_create_log:
  "clnt_create c w = (r, w1) \<Longrightarrow>
   \<exists>rep. log w1 = log w @ [(c, rep)] \<and> (r = None) = (\<not> is_client rep) \<and> out w1 = out w"
  by (cases "replies w"; cases "hd (replies w)")
     (auto simp: clnt_create_def rpc_def is_client_def)

lemma creates_append: "creates (a @ b) = creates a @ creates b"
  by (simp add: creates_def)

lemma creates_create [simp]:
  "creates [(CLNTTCP_CREATE, r)] = [(CLNTTCP_CREATE, r)]"
  "creates [(CLNTUDP_CREATE, r)] = [(CLNTUDP_CREATE, r)]"
  by (simp_all add: creates_def is_create_def)

lemma open_nfs_forced_log:
  assumes "open_nfs_forced b s w = Inr (p, s1, w1)"
  shows "\<exists>new rep. log w1 = log w @ new
      \<and> creates new = [(if b then CLNTTCP_CREATE else CLNTUDP_CREATE, rep)]
      \<and> (p = None) = (\<not> is_client rep)
      \<and> (p = None \<longrightarrow> out w1 \<noteq> [] \<and> last (out w1) =
            Clnt_pcreateerror (if b then ''nfs clnttcp_create'' else ''nfs clntudp_create''))"
proof -
  let ?c = "if b then CLNTTCP_CREATE else CLNTUDP_CREATE"
  from assms obtain sock w2 where su: "setup_sock b s w = Inr (sock, w2)"
    by (auto simp: open_nfs_forced_def split: sum.splits)
  obtain r w3 where cr: "clnt_create ?c w2 = (r, w3)" by (cases "clnt_create ?c w2")
  from quiet_setup_sock [OF su] obtain pre where pre: "log w2 = log w @ pre" "creates pre = []"
    by (auto simp: quiet_def)
  from clnt_create_log [OF cr] obtain rep where rep: "log w3 = log w2 @ [(?c, rep)]"
    "(r = None) = (\<not> is_client rep)" by blast
  have lg: "log w3 = log w @ (pre @ [(?c, rep)])" using pre rep by simp
  have cs: "creates (pre @ [(?c, rep)]) = [(?c, rep)]"
    using pre(2) by (simp add: creates_append)
  show ?thesis
  proof (cases r)
    case None
    with assms su cr have "p = None" "w1 = clnt_pcreateerror
        (if b then ''nfs clnttcp_create'' else ''nfs clntudp_create'') w3"
      by (simp_all add: open_nfs_forced_def)
    then show ?thesis using lg cs rep(2) None
      by (intro exI [of _ "pre @ [(?c, rep)]"] exI [of _ rep]) (simp add: clnt_pcreateerror_def)
  next
    case (Some a)
    with assms su cr have "p \<noteq> None" "w1 = w3"
      by (auto simp: open_nfs_forced_def)
    then show ?thesis using lg cs rep(2) Some
      by (intro exI [of _ "pre @ [(?c, rep)]"] exI [of _ rep]) auto
  qed
qed

lemma open_nfs_switch_log:
  assumes "open_nfs_switch flags s w = Inr (p, s1, w1)"
  shows "\<exists>new tcp udp. log w1 = log w @ new
      \<and> creates new =
           (if flags AND TRANSPORT_MASK = NFS_OVER_UDP then [(CLNTUDP_CREATE, udp)]
            else if flags AND TRANSPORT_MASK = NFS_OVER_TCP then [(CLNTTCP_CREATE, tcp)]
            else if is_client tcp then [(CLNTTCP_CREATE, tcp)]
            else [(CLNTTCP_CREATE, tcp), (CLNTUDP_CREATE, udp)])
      \<and> (p = None) = (\<not> is_client (snd (last (creates new))))
      \<and> (p = None \<longrightarrow> out w1 \<noteq> [] \<and> last (out w1) =
            Clnt_pcreateerror (if fst (last (creates new)) = CLNTTCP_CREATE
                               then ''nfs clnttcp_create'' else ''nfs clntudp_create''))"
proof -
  consider (udp) "flags AND TRANSPORT_MASK = NFS_OVER_UDP"
    | (tcp) "flags AND TRANSPORT_MASK \<noteq> NFS_OVER_UDP" "flags AND TRANSPORT_MASK = NFS_OVER_TCP"
    | (both) "flags AND TRANSPORT_MASK \<noteq> NFS_OVER_UDP" "flags AND TRANSPORT_MASK \<noteq> NFS_OVER_TCP"
    by blast
  then show ?thesis
  proof cases
    case udp
    with assms have "open_nfs_forced False s w = Inr (p, s1, w1)"
      by (simp add: open_nfs_switch_def)
    from open_nfs_forced_log [OF this] obtain new rep where
      "log w1 = log w @ new" "creates new = [(CLNTUDP_CREATE, rep)]"
      "(p = None) = (\<not> is_client rep)"
      "p = None \<longrightarrow> out w1 \<noteq> [] \<and> last (out w1) = Clnt_pcreateerror ''nfs clntudp_create''"
      by auto
    then show ?thesis using udp
      by (intro exI [of _ new] exI [of _ rep]) simp
  next
    case tcp
    with assms have "open_nfs_forced True s w = Inr (p, s1, w1)"
      by (simp add: open_nfs_switch_def)
    from open_nfs_forced_log [OF this] obtain new rep where
      "log w1 = log w @ new" "creates new = [(CLNTTCP_CREATE, rep)]"
      "(p = None) = (\<not> is_client rep)"
      "p = None \<longrightarrow> out w1 \<noteq> [] \<and> last (out w1) = Clnt_pcreateerror ''nfs clnttcp_create''"
      by auto
    then show ?thesis using tcp
      by (intro exI [of _ new] exI [of _ rep]) simp
  next
    case both
    from assms both obtain sock w2 where su: "setup_sock True s w = Inr (sock, w2)"
      by (auto simp: open_nfs_switch_def split: sum.splits)
    obtain r w3 where cr: "clnt_create CLNTTCP_CREATE w2 = (r, w3)"
      by (cases "clnt_create CLNTTCP_CREATE w2")
    from quiet_setup_sock [OF su] obtain pre where pre: "log w2 = log w @ pre" "creates pre = []"
      by (auto simp: quiet_def)
    from clnt_create_log [OF cr] obtain tcp where tcp: "log w3 = log w2 @ [(CLNTTCP_CREATE, tcp)]"
      "(r = None) = (\<not> is_client tcp)" by blast
    show ?thesis
    proof (cases r)
      case (Some a)
      with assms both su cr have "p \<noteq> None" "w1 = w3"
        by (auto simp: open_nfs_switch_def)
      moreover have "log w3 = log w @ (pre @ [(CLNTTCP_CREATE, tcp)])" using pre tcp by simp
      moreover have "creates (pre @ [(CLNTTCP_CREATE, tcp)]) = [(CLNTTCP_CREATE, tcp)]"
        using pre(2) by (simp add: creates_append)
      ultimately show ?thesis using both tcp(2) Some
        by (intro exI [of _ "pre @ [(CLNTTCP_CREATE, tcp)]"] exI [of _ tcp]) auto
    next
      case None
      with assms both su cr
      have "open_nfs_forced False (new_nfsclient None s) w3 = Inr (p, s1, w1)"
        by (simp add: open_nfs_switch_def)
      from open_nfs_forced_log [OF this] obtain new udp where new:
        "log w1 = log w3 @ new" "creates new = [(CLNTUDP_CREATE, udp)]"
        "(p = None) = (\<not> is_client udp)"
        "p = None \<longrightarrow> out w1 \<noteq> [] \<and> last (out w1) = Clnt_pcreateerror ''nfs clntudp_create''"
        by auto
      have "log w1 = log w @ (pre @ [(CLNTTCP_CREATE, tcp)] @ new)" using pre tcp new by simp
      moreover have "creates (pre @ [(CLNTTCP_CREATE, tcp)] @ new) =
          [(CLNTTCP_CREATE, tcp), (CLNTUDP_CREATE, udp)]"
        using pre(2) new(2) creates_append [of "[(CLNTTCP_CREATE, tcp)]" new]
        by (simp add: creates_append)
      ultimately show ?thesis using both tcp(2) None new(3,4)
        by (intro exI [of _ "pre @ [(CLNTTCP_CREATE, tcp)] @ new"] exI [of _ tcp] exI [of _ udp])
           simp
    qed
  qed
qed

lemma quiet_alloc: "alloc w = (b, w1) \<Longrightarrow> quiet w w1"
  by (auto simp: alloc_def quiet_def creates_def split: option.splits nat.splits)

lemma quiet_create_authenticator: "create_authenticator s w = Inr w1 \<Longrightarrow> quiet w w1"
proof -
  assume a: "create_authenticator s w = Inr w1"
  obtain r w2 where r: "rpc GETHOSTNAME w = (r, w2)" by (cases "rpc GETHOSTNAME w")
  have "quiet w w2" using r by (rule quiet_rpc [rotated]) (simp add: is_create_def)
  moreover from a r have "w1 = w2"
    by (cases r) (auto simp: create_authenticator_def split: if_splits)
  ultimately show ?thesis by simp
qed

lemma quiet_mount_call: "\<not> is_create c \<Longrightarrow> mount_call c w = (m, w1) \<Longrightarrow> quiet w w1"
proof -
  assume c: "\<not> is_create c" and a: "mount_call c w = (m, w1)"
  obtain r w2 where r: "rpc c w = (r, w2)" by (cases "rpc c w")
  have "quiet w w2" using c r by (rule quiet_rpc)
  moreover from a r have "w1 = w2" by (cases r) (auto simp: mount_call_def)
  ultimately show ?thesis by simp
qed

lemma quiet_determine_transfersize: "determine_transfersize s w = (n, w1) \<Longrightarrow> quiet w w1"
proof -
  assume a: "determine_transfersize s w = (n, w1)"
  let ?c = "FSINFO (nfs_fh3copy (directory_handle s))"
  obtain r w2 where r: "rpc ?c w = (r, w2)" by (cases "rpc ?c w")
  have "quiet w w2" using r by (rule quiet_rpc [rotated]) (simp add: is_create_def)
  moreover from a r have "w1 = w2" by (cases r) (auto simp: determine_transfersize_def)
  ultimately show ?thesis by simp
qed

lemma quiet_open_nfs_done:
  assumes "open_nfs_done mp port flags proto s w = (ret, s1, w1)"
  shows "quiet w w1"
proof -
  obtain b w2 where al: "alloc w = (b, w2)" by (cases "alloc w")
  note q1 = quiet_alloc [OF al]
  show ?thesis
  proof (cases b)
    case False
    with assms al have "w1 = fprintf_stderr ''internal error: no more core for mountpath'' w2"
      by (simp add: open_nfs_done_def)
    then show ?thesis using q1 by (simp add: fprintf_stderr_def quiet_out)
  next
    case True
    obtain n w3 where dt: "determine_transfersize s w2 = (n, w3)"
      by (cases "determine_transfersize s w2")
    note q2 = quiet_trans [OF q1 quiet_determine_transfersize [OF dt]]
    from assms al True dt have "w1 = w3 \<or> (\<exists>x. w1 = printf_stdout x w3)"
      by (auto simp: open_nfs_done_def split: if_splits)
    then show ?thesis using q2 by (auto simp: printf_stdout_def quiet_out)
  qed
qed

lemma quiet_open_nfs_mount:
  assumes "open_nfs_mount path port flags proto s w = Inr (ret, s1, w1)"
  shows "quiet w w1"
proof -
  from assms obtain wa where ca: "create_authenticator s w = Inr wa"
    by (auto simp: open_nfs_mount_def split: if_splits sum.splits)
  note q1 = quiet_create_authenticator [OF ca]
  from assms have lv: "live (nfsclient s) s \<and> live (mntclient s) s"
    by (auto simp: open_nfs_mount_def split: if_splits)
  show ?thesis
  proof (cases path)
    case None
    with assms ca lv have "open_nfs_done ''<handle>'' port flags proto s wa = (ret, s1, w1)"
      by (simp add: open_nfs_mount_def)
    from quiet_open_nfs_done [OF this] q1 show ?thesis by (rule quiet_trans [rotated])
  next
    case (Some pa)
    let ?c = "if flags AND THRU_PORTMAP \<noteq> 0 then PMAP_MNT pa else MNT pa"
    have nc: "\<not> is_create ?c" by (simp add: is_create_def)
    obtain m w2 where mc: "mount_call ?c wa = (m, w2)" by (cases "mount_call ?c wa")
    note q2 = quiet_trans [OF q1 quiet_mount_call [OF nc mc]]
    show ?thesis
    proof (cases m)
      case None
      with assms ca lv Some mc have "w1 = clnt_perrno w2 \<or> w1 = clnt_perror ''mount3_mnt'' w2"
        by (auto simp: open_nfs_mount_def split: if_splits)
      then show ?thesis using q2 by (auto simp: clnt_perrno_def clnt_perror_def quiet_out)
    next
      case sm: (Some mr)
      show ?thesis
      proof (cases "fhs_status mr \<noteq> MNT3_OK")
        case True
        with assms ca lv Some mc sm
        have "w1 = fprintf_stderr (''Mount failed: '' @ nfs_error (fhs_status mr)) w2"
          by (auto simp: open_nfs_mount_def split: if_splits)
        then show ?thesis using q2 by (simp add: fprintf_stderr_def quiet_out)
      next
        case False
        let ?w3 = "if flags AND MOUNT_UMOUNT \<noteq> 0 then snd (rpc (UMNT pa) w2) else w2"
        have q3: "quiet w2 ?w3"
          by (simp add: quiet_refl quiet_rpc_snd is_create_def)
        from assms ca lv Some mc sm False
        have "\<exists>sx. open_nfs_done pa port flags proto sx ?w3 = (ret, s1, w1)"
          by (auto simp: open_nfs_mount_def split: if_splits)
        then obtain sx where "open_nfs_done pa port flags proto sx ?w3 = (ret, s1, w1)" ..
        from quiet_open_nfs_done [OF this] have "quiet ?w3 w1" .
        with q2 q3 show ?thesis by (blast intro: quiet_trans)
      qed
    qed
  qed
qed

text \<open>
  C5, as amended. Whenever \<open>open_nfs\<close> returns, the calls it has made to create a
  client are these. If the transport bits of the flags are NFS_OVER_UDP alone, one call of
  \<open>clntudp_create\<close>; if they are NFS_OVER_TCP alone, one call of \<open>clnttcp_create\<close>;
  in every other case, which is no transport bit and both of them, one call of
  \<open>clnttcp_create\<close>, followed by one call of \<open>clntudp_create\<close> exactly when the first
  gave no client. And when the last of these calls gave no client, \<open>open_nfs\<close> returns 0
  and the last thing it has written is the line of \<open>clnt_pcreateerror\<close> for that call.
\<close>

theorem open_nfs_transport_fallback:
  assumes "open_nfs path port flags s w = Inr (ret, s', w')"
  shows "\<exists>new tcp udp. log w' = log w @ new
      \<and> creates new =
           (if flags AND TRANSPORT_MASK = NFS_OVER_UDP then [(CLNTUDP_CREATE, udp)]
            else if flags AND TRANSPORT_MASK = NFS_OVER_TCP then [(CLNTTCP_CREATE, tcp)]
            else if is_client tcp then [(CLNTTCP_CREATE, tcp)]
            else [(CLNTTCP_CREATE, tcp), (CLNTUDP_CREATE, udp)])
      \<and> (\<not> is_client (snd (last (creates new))) \<longrightarrow>
            ret = 0 \<and> out w' \<noteq> [] \<and> last (out w') =
              Clnt_pcreateerror (if fst (last (creates new)) = CLNTTCP_CREATE
                                 then ''nfs clnttcp_create'' else ''nfs clntudp_create''))"
proof -
  from assms obtain s1 w1 where
    cl: "(if mountpath s \<noteq> None then close_nfs s w else Inr (s, w)) = Inr (s1, w1)"
    by (auto simp: open_nfs_def split: sum.splits)
  have q1: "quiet w w1"
  proof (cases "mountpath s \<noteq> None")
    case True
    with cl show ?thesis by (auto dest: quiet_close_nfs)
  next
    case False
    with cl show ?thesis by (auto simp: quiet_refl)
  qed
  then obtain pre where pre: "log w1 = log w @ pre" "creates pre = []"
    by (auto simp: quiet_def)
  from assms cl obtain p s2 w2 where sw: "open_nfs_switch flags s1 w1 = Inr (p, s2, w2)"
    by (auto simp: open_nfs_def split: sum.splits)
  from open_nfs_switch_log [OF sw] obtain new tcp udp where new:
    "log w2 = log w1 @ new"
    "creates new =
       (if flags AND TRANSPORT_MASK = NFS_OVER_UDP then [(CLNTUDP_CREATE, udp)]
        else if flags AND TRANSPORT_MASK = NFS_OVER_TCP then [(CLNTTCP_CREATE, tcp)]
        else if is_client tcp then [(CLNTTCP_CREATE, tcp)]
        else [(CLNTTCP_CREATE, tcp), (CLNTUDP_CREATE, udp)])"
    "(p = None) = (\<not> is_client (snd (last (creates new))))"
    "p = None \<longrightarrow> out w2 \<noteq> [] \<and> last (out w2) =
        Clnt_pcreateerror (if fst (last (creates new)) = CLNTTCP_CREATE
                           then ''nfs clnttcp_create'' else ''nfs clntudp_create'')"
    by blast
  have "\<exists>post. log w' = log w2 @ post \<and> creates post = []
      \<and> (p = None \<longrightarrow> ret = 0 \<and> w' = w2)"
  proof (cases p)
    case None
    with assms cl sw have "ret = 0" "w' = w2" by (auto simp: open_nfs_def)
    with None show ?thesis by (simp add: creates_def)
  next
    case (Some proto)
    with assms cl sw have "open_nfs_mount path port flags proto s2 w2 = Inr (ret, s', w')"
      by (auto simp: open_nfs_def)
    from quiet_open_nfs_mount [OF this] Some show ?thesis by (auto simp: quiet_def)
  qed
  then obtain post where post: "log w' = log w2 @ post" "creates post = []"
    "p = None \<longrightarrow> ret = 0 \<and> w' = w2" by blast
  have lg: "log w' = log w @ (pre @ new @ post)" using pre new(1) post(1) by simp
  have cs: "creates (pre @ new @ post) = creates new"
    using pre(2) post(2) by (simp add: creates_append)
  show ?thesis
    apply (rule exI [of _ "pre @ new @ post"])
    apply (rule exI [of _ tcp])
    apply (rule exI [of _ udp])
    apply (simp only: cs)
    using lg new(2,3,4) post(3) apply blast
    done
qed

text \<open>
  The theorem at work on \<open>open_nfs\<close> for the path "/x" with no flag, in a session
  with a host: the server gives no client over TCP and gives one over UDP, and the mount
  daemon grants the mount. Both calls are made, in that order.
\<close>

theorem open_nfs_transport_fallback_witness:
  "\<exists>ret s' w' tcp udp.
     open_nfs (Some ''/x'') 0 0 session_hosted
       (world_of [PORT 2049, CONNECTED, RPC_FAILED, PORT 2049, CONNECTED, CLNT_AT 2,
                  HOSTNAME ''client'', mount_reply 0 ''root'',
                  FSINFO3 \<lparr>status = 0, resok = 32768\<rparr>]) = Inr (ret, s', w')
     \<and> creates (log w') = [(CLNTTCP_CREATE, tcp), (CLNTUDP_CREATE, udp)]
     \<and> \<not> is_client tcp \<and> is_client udp \<and> ret = 1 \<and> mountpath s' = Some ''/x''"
proof -
  let ?w = "world_of [PORT 2049, CONNECTED, RPC_FAILED, PORT 2049, CONNECTED, CLNT_AT 2,
                  HOSTNAME ''client'', mount_reply 0 ''root'',
                  FSINFO3 \<lparr>status = 0, resok = 32768\<rparr>]"
  have "case open_nfs (Some ''/x'') 0 0 session_hosted ?w of
          Inl f \<Rightarrow> False
        | Inr (ret, s', w') \<Rightarrow>
            ret = 1 \<and> mountpath s' = Some ''/x''
            \<and> creates (log w') = [(CLNTTCP_CREATE, RPC_FAILED), (CLNTUDP_CREATE, CLNT_AT 2)]"
    by code_simp
  then obtain ret s' w' where run: "open_nfs (Some ''/x'') 0 0 session_hosted ?w = Inr (ret, s', w')"
    and res: "ret = 1" "mountpath s' = Some ''/x''"
      "creates (log w') = [(CLNTTCP_CREATE, RPC_FAILED), (CLNTUDP_CREATE, CLNT_AT 2)]"
    by (cases "open_nfs (Some ''/x'') 0 0 session_hosted ?w") auto
  from open_nfs_transport_fallback [OF run] obtain new tcp udp where
    new: "log w' = log ?w @ new"
      "creates new =
         (if (0::int) AND TRANSPORT_MASK = NFS_OVER_UDP then [(CLNTUDP_CREATE, udp)]
          else if (0::int) AND TRANSPORT_MASK = NFS_OVER_TCP then [(CLNTTCP_CREATE, tcp)]
          else if is_client tcp then [(CLNTTCP_CREATE, tcp)]
          else [(CLNTTCP_CREATE, tcp), (CLNTUDP_CREATE, udp)])"
    by blast
  have "log w' = new" using new(1) by (simp add: world_of_def)
  with new(2) res(3) have "tcp = RPC_FAILED" "udp = CLNT_AT 2"
    by (auto simp: NFS_OVER_UDP_def NFS_OVER_TCP_def split: if_splits)
  with run res show ?thesis by (auto simp: is_client_def)
qed

text \<open>
  Against C5 as stated: \<open>mount -TU /x\<close>. Transport flags are given, both of them, and
  the transport bits of the flags are not 0; the server gives no client over TCP, and
  \<open>clntudp_create\<close> is called all the same, and the mount is made over UDP.
\<close>

theorem open_nfs_fallback_with_flags_counterexample:
  "(case mount_args (tl (argv_of [''mount'', ''-TU'', ''/x''])) 0 0 of
      Inl f \<Rightarrow> False
    | Inr None \<Rightarrow> False
    | Inr (Some (argv1, port, flags)) \<Rightarrow>
        flags = NFS_OVER_TCP OR NFS_OVER_UDP \<and> flags AND TRANSPORT_MASK \<noteq> 0)
   \<and> (case do_mount (argv_of [''mount'', ''-TU'', ''/x'']) session_hosted
           (world_of [PORT 2049, CONNECTED, RPC_FAILED, PORT 2049, CONNECTED, CLNT_AT 2,
                      HOSTNAME ''client'', mount_reply 0 ''root'',
                      FSINFO3 \<lparr>status = 0, resok = 32768\<rparr>]) of
      Inl f \<Rightarrow> False
    | Inr (s', w') \<Rightarrow>
        creates (log w') = [(CLNTTCP_CREATE, RPC_FAILED), (CLNTUDP_CREATE, CLNT_AT 2)]
        \<and> mountpath s' = Some ''/x'' \<and> nfsclient s' = Some 2 \<and> out w' = [])"
  by code_simp

text \<open>
  C7. The session does not keep what the claim says between commands. \<open>close_nfs\<close>
  destroys the NFS client and leaves its address in \<open>nfsclient\<close>; \<open>do_setuid\<close> and
  \<open>do_setgid\<close> test that pointer alone, so that \<open>uid 0\<close> or \<open>gid 0\<close> after
  \<open>umount\<close> reaches into the destroyed client; \<open>close_mount\<close> leaves both pointers
  in the same way. The run is \<open>mount /x\<close>, in a session with a host, then
  \<open>umount\<close> (or \<open>close_mount\<close>), then \<open>uid 0\<close> (or \<open>gid 0\<close>). And a \<open>mount\<close>
  that the mount daemon refuses returns after the NFS client has been created: the
  session then has a live NFS client although \<open>mountpath\<close> is NULL. Both runs start
  from a session in which the two invariants hold.
\<close>

theorem close_nfs_leaves_destroyed_client_in_use:
  "session_inv session_hosted
   \<and> (case do_mount (argv_of [''mount'', ''/x'']) session_hosted
              (world_of [PORT 2049, CONNECTED, CLNT_AT 2, HOSTNAME ''client'',
                         mount_reply 0 ''root'', FSINFO3 \<lparr>status = 0, resok = 32768\<rparr>,
                         VOID3]) of
        Inl f \<Rightarrow> False
      | Inr (s1, w1) \<Rightarrow>
          session_inv s1 \<and> mountpath s1 = Some ''/x'' \<and> nfsclient s1 = Some 2
          \<and> (case do_umount (argv_of [''umount'']) s1 w1 of
                Inl f \<Rightarrow> False
              | Inr (s2, w2) \<Rightarrow>
                  mountpath s2 = None \<and> nfsclient s2 = Some 2 \<and> 2 \<notin> set (clients s2)
                  \<and> (case do_setuid (argv_of [''uid'', ''0'']) s2 w2 of
                        Inl f \<Rightarrow> f = UNDEFINED | Inr r \<Rightarrow> False)
                  \<and> (case do_setgid (argv_of [''gid'', ''0'']) s2 w2 of
                        Inl f \<Rightarrow> f = UNDEFINED | Inr r \<Rightarrow> False))
          \<and> (case close_mount s1 w1 of
                Inl f \<Rightarrow> False
              | Inr (s2, w2) \<Rightarrow>
                  remotehost s2 = None \<and> mountpath s2 = None
                  \<and> mntclient s2 = Some 1 \<and> nfsclient s2 = Some 2 \<and> clients s2 = []
                  \<and> (case do_setuid (argv_of [''uid'', ''0'']) s2 w2 of
                        Inl f \<Rightarrow> f = UNDEFINED | Inr r \<Rightarrow> False)))
   \<and> (case do_mount (argv_of [''mount'', ''/nope'']) session_hosted
              (world_of [PORT 2049, CONNECTED, CLNT_AT 2, HOSTNAME ''client'',
                         mount_reply 2 []]) of
        Inl f \<Rightarrow> False
      | Inr (s1, w1) \<Rightarrow>
          mountpath s1 = None \<and> nfsclient s1 = Some 2 \<and> live (nfsclient s1) s1
          \<and> \<not> session_inv s1
          \<and> out w1 = [Stderr_line ''Mount failed: No such file or directory''])"
  by code_simp

end
